theory Spec2Isabelle
  imports Complex_Main "HOL-Library.Char_ord" "HOL-Library.List_Lexorder" "HOL-Library.Multiset"
begin

section \<open>Data structures\<close>

text \<open>
  The two structs of \<^verbatim>\<open>main.go\<close>. A Go \<^verbatim>\<open>int\<close> is an integer of 64 bits: it is read as the
  integer it denotes, and the one place where the program computes with it, the increment
  of the next identifier, wraps around as \<open>int_incr\<close> below does. A \<^verbatim>\<open>float64\<close> amount is read
  as the real number it denotes (NaN and the infinities are not part of the model); the sum
  and the difference of two amounts are rounded, and are taken from the host (\<open>float_add\<close>,
  \<open>float_sub\<close> below). A \<^verbatim>\<open>time.Time\<close> is read as the instant it denotes. A Go string is a list
  of bytes. A Go map is a partial function; \<^verbatim>\<open>nil\<close> is \<open>None\<close>.
\<close>

type_synonym time = int

record Expense =
  ID :: int
  Date :: string
  Description :: string
  Amount :: real
  Category :: string
  CreatedAt :: time
  UpdatedAt :: time

record Store =
  NextID :: int
  Expenses :: "Expense list"
  Budgets :: "(string \<rightharpoonup> real) option"

definition defaultCat :: string where
  "defaultCat = ''General''"

definition maxInt :: int where
  "maxInt = 9223372036854775807"

definition int_incr :: "int \<Rightarrow> int" where
  "int_incr n = (if n = maxInt then - maxInt - 1 else n + 1)"

section \<open>The host and the data file\<close>

text \<open>
  What one invocation of the program reads from its host: whether the home directory
  resolves, whether the data file can be opened and written, the readings of the clock,
  whether the export destination can be created and written, and whether the rows of an
  export outgrow the buffer of the CSV writer (4096 bytes) before the last of them is
  handed over, so that the writer writes to the file inside the loop: that depends on the
  rendered text of the rows, which is not modelled.

  Three functions of the Go runtime are taken from the host as well, because their tables
  are not part of the program: the rounded sum and difference of two \<^verbatim>\<open>float64\<close> values, and
  the result of \<^verbatim>\<open>strings.EqualFold\<close> on two strings of which one holds a byte outside ASCII
  (Unicode simple case folding). Every theorem below holds whatever these functions are.
\<close>

record env =
  home_ok :: bool
  readable :: bool
  writable :: bool
  now_created :: time
  now_updated :: time
  today :: string
  this_year :: int
  this_month :: int
  export_create_ok :: bool
  export_write_ok :: bool
  export_outgrows_buffer :: bool
  float_add :: "real \<Rightarrow> real \<Rightarrow> real"
  float_sub :: "real \<Rightarrow> real \<Rightarrow> real"
  unicode_fold :: "string \<Rightarrow> string \<Rightarrow> bool"

text \<open>
  The file at the data path: absent, holding bytes that \<^verbatim>\<open>json.Decoder.Decode\<close> rejects, or
  holding a document that decodes to the given \<^verbatim>\<open>Store\<close> value (a field missing from the
  document is the zero value of its type).
\<close>

datatype data_file = NotExist | Undecodable | Doc Store

datatype error =
    ErrDescriptionRequired
  | ErrAmountNotPositive
  | ErrInvalidDate string
  | ErrIdRequired
  | ErrNotFound int
  | ErrMonthRange
  | ErrHomeDir
  | ErrOpen
  | ErrDecode
  | ErrSave
  | ErrExportCreate
  | ErrExportWrite
  | PanicNilMap

text \<open>
  The program returns plain \<^verbatim>\<open>error\<close> values; the specification groups them into named
  classes (its section 7). \<open>spec_error_class\<close> follows that grouping.
\<close>

datatype error_class =
    ValidationError | NotFoundError | CorruptStoreError | PersistenceError | ExportIOError
  | Unclassified

fun spec_error_class :: "error \<Rightarrow> error_class" where
  "spec_error_class ErrDescriptionRequired = ValidationError"
| "spec_error_class ErrAmountNotPositive = ValidationError"
| "spec_error_class (ErrInvalidDate s) = ValidationError"
| "spec_error_class ErrIdRequired = ValidationError"
| "spec_error_class ErrMonthRange = ValidationError"
| "spec_error_class (ErrNotFound i) = NotFoundError"
| "spec_error_class ErrOpen = CorruptStoreError"
| "spec_error_class ErrDecode = CorruptStoreError"
| "spec_error_class ErrSave = PersistenceError"
| "spec_error_class ErrExportCreate = ExportIOError"
| "spec_error_class ErrExportWrite = ExportIOError"
| "spec_error_class ErrHomeDir = Unclassified"
| "spec_error_class PanicNilMap = Unclassified"

section \<open>What package \<^verbatim>\<open>encoding/json\<close> does to a store\<close>

text \<open>
  \<open>utf8_width s\<close> is the number of bytes of the UTF-8 sequence at the head of \<open>s\<close>, as
  \<^verbatim>\<open>utf8.DecodeRuneInString\<close> accepts it, and 0 when the head is not the start of one (or \<open>s\<close>
  is empty): overlong forms, surrogates and values above U+10FFFF are not accepted.
\<close>

definition byte_in :: "nat \<Rightarrow> nat \<Rightarrow> char \<Rightarrow> bool" where
  "byte_in lo hi c = (lo \<le> (of_char c :: nat) \<and> (of_char c :: nat) \<le> hi)"

fun utf8_width :: "string \<Rightarrow> nat" where
  "utf8_width [] = 0"
| "utf8_width (c # cs) =
     (if byte_in 0x00 0x7F c then 1
      else if byte_in 0xC2 0xDF c then
        (case cs of c1 # r1 \<Rightarrow> if byte_in 0x80 0xBF c1 then 2 else 0 | [] \<Rightarrow> 0)
      else if byte_in 0xE0 0xEF c then
        (case cs of
           c1 # c2 # r2 \<Rightarrow>
             if byte_in (if byte_in 0xE0 0xE0 c then 0xA0 else 0x80)
                        (if byte_in 0xED 0xED c then 0x9F else 0xBF) c1
                \<and> byte_in 0x80 0xBF c2
             then 3 else 0
         | _ \<Rightarrow> 0)
      else if byte_in 0xF0 0xF4 c then
        (case cs of
           c1 # c2 # c3 # r3 \<Rightarrow>
             if byte_in (if byte_in 0xF0 0xF0 c then 0x90 else 0x80)
                        (if byte_in 0xF4 0xF4 c then 0x8F else 0xBF) c1
                \<and> byte_in 0x80 0xBF c2 \<and> byte_in 0x80 0xBF c3
             then 4 else 0
         | _ \<Rightarrow> 0)
      else 0)"

declare utf8_width.simps [simp del]

text \<open>
  A string, encoded by \<^verbatim>\<open>json.Encoder\<close> and decoded again: the encoder writes the
  replacement character U+FFFD (the bytes EF BF BD) for every byte that does not start a
  UTF-8 sequence, and every other byte comes back as it was.
\<close>

definition replacement_char :: string where
  "replacement_char = [CHR 0xEF, CHR 0xBF, CHR 0xBD]"

function json_string :: "string \<Rightarrow> string" where
  "json_string s =
     (if s = [] then []
      else if utf8_width s = 0 then replacement_char @ json_string (tl s)
      else take (utf8_width s) s @ json_string (drop (utf8_width s) s))"
  by pat_completeness auto
termination
  by (relation "measure length") auto

declare json_string.simps [simp del]

text \<open>
  A store, encoded and decoded again: the identifiers, the amounts, the instants and the
  next identifier come back as they were (for the amounts and instants of the model), and
  every string as \<open>json_string\<close> has it. The keys of the budgets are strings too: the encoder
  writes the entries in the order of their keys, each under its key as \<open>json_string\<close> has
  it, and of two entries that come to stand under one key the decoder keeps the later.
\<close>

definition json_expense :: "Expense \<Rightarrow> Expense" where
  "json_expense e =
     e\<lparr>Date := json_string (Date e), Description := json_string (Description e),
       Category := json_string (Category e)\<rparr>"

definition json_budgets :: "(string \<rightharpoonup> real) \<Rightarrow> (string \<rightharpoonup> real)" where
  "json_budgets m k =
     (if {k0 \<in> dom m. json_string k0 = k} = {} then None
      else m (Max {k0 \<in> dom m. json_string k0 = k}))"

definition json_store :: "Store \<Rightarrow> Store" where
  "json_store st =
     st\<lparr>Expenses := map json_expense (Expenses st),
        Budgets := map_option json_budgets (Budgets st)\<rparr>"

section \<open>Load and save\<close>

definition loadStore :: "env \<Rightarrow> data_file \<Rightarrow> error + Store" where
  "loadStore ev f =
     (if \<not> home_ok ev then Inl ErrHomeDir
      else case f of
        NotExist \<Rightarrow> Inr \<lparr>NextID = 1, Expenses = [], Budgets = Some Map.empty\<rparr>
      | Undecodable \<Rightarrow> (if \<not> readable ev then Inl ErrOpen else Inl ErrDecode)
      | Doc st0 \<Rightarrow>
          (if \<not> readable ev then Inl ErrOpen
           else
             let st1 = (if Budgets st0 = None then st0\<lparr>Budgets := Some Map.empty\<rparr> else st0);
                 st2 = (if NextID st1 = 0 then st1\<lparr>NextID := 1\<rparr> else st1)
             in Inr st2))"

text \<open>
  \<open>save\<close> returns the file after the call and the error, if any. The temporary file is
  renamed over the data path as the last step, so a failed save leaves the file as it was.
  The document written decodes to the store as \<open>json_store\<close> has it.
\<close>

definition save :: "env \<Rightarrow> Store \<Rightarrow> data_file \<Rightarrow> data_file \<times> error option" where
  "save ev st f =
     (if \<not> home_ok ev then (f, Some ErrHomeDir)
      else if \<not> writable ev then (f, Some ErrSave)
      else (Doc (json_store st), None))"

section \<open>Library functions of Go\<close>

text \<open>
  \<^verbatim>\<open>strings.TrimSpace\<close> removes the leading and the trailing white space of a string, white
  space being what \<^verbatim>\<open>unicode.IsSpace\<close> accepts. \<open>space_runes\<close> lists the UTF-8 sequences of
  these characters: tab, line feed, vertical tab, form feed, carriage return, space,
  U+0085, U+00A0, U+1680, U+2000 to U+200A, U+2028, U+2029, U+202F, U+205F and U+3000. No
  sequence of the list is the head or the tail of another, and none is a part of a longer
  UTF-8 sequence, so that reading the bytes finds what decoding the characters finds.
\<close>

definition space_runes :: "string list" where
  "space_runes =
     [[CHR 0x09], [CHR 0x0A], [CHR 0x0B], [CHR 0x0C], [CHR 0x0D], [CHR 0x20],
      [CHR 0xC2, CHR 0x85], [CHR 0xC2, CHR 0xA0],
      [CHR 0xE1, CHR 0x9A, CHR 0x80],
      [CHR 0xE2, CHR 0x80, CHR 0x80], [CHR 0xE2, CHR 0x80, CHR 0x81],
      [CHR 0xE2, CHR 0x80, CHR 0x82], [CHR 0xE2, CHR 0x80, CHR 0x83],
      [CHR 0xE2, CHR 0x80, CHR 0x84], [CHR 0xE2, CHR 0x80, CHR 0x85],
      [CHR 0xE2, CHR 0x80, CHR 0x86], [CHR 0xE2, CHR 0x80, CHR 0x87],
      [CHR 0xE2, CHR 0x80, CHR 0x88], [CHR 0xE2, CHR 0x80, CHR 0x89],
      [CHR 0xE2, CHR 0x80, CHR 0x8A],
      [CHR 0xE2, CHR 0x80, CHR 0xA8], [CHR 0xE2, CHR 0x80, CHR 0xA9],
      [CHR 0xE2, CHR 0x80, CHR 0xAF],
      [CHR 0xE2, CHR 0x81, CHR 0x9F],
      [CHR 0xE3, CHR 0x80, CHR 0x80]]"

definition is_head :: "string \<Rightarrow> string \<Rightarrow> bool" where
  "is_head w s = (take (length w) s = w)"

definition is_tail :: "string \<Rightarrow> string \<Rightarrow> bool" where
  "is_tail w s = (length w \<le> length s \<and> drop (length s - length w) s = w)"

definition leading_space :: "string \<Rightarrow> nat" where
  "leading_space s = (case find (\<lambda>w. is_head w s) space_runes of None \<Rightarrow> 0 | Some w \<Rightarrow> length w)"

definition trailing_space :: "string \<Rightarrow> nat" where
  "trailing_space s = (case find (\<lambda>w. is_tail w s) space_runes of None \<Rightarrow> 0 | Some w \<Rightarrow> length w)"

function TrimLeft :: "string \<Rightarrow> string" where
  "TrimLeft s =
     (if s = [] \<or> leading_space s = 0 then s else TrimLeft (drop (leading_space s) s))"
  by pat_completeness auto
termination
  by (relation "measure length") auto

function TrimRight :: "string \<Rightarrow> string" where
  "TrimRight s =
     (if s = [] \<or> trailing_space s = 0 then s
      else TrimRight (take (length s - trailing_space s) s))"
  by pat_completeness auto
termination
  by (relation "measure length") auto

declare TrimLeft.simps [simp del]
declare TrimRight.simps [simp del]

definition TrimSpace :: "string \<Rightarrow> string" where
  "TrimSpace s = TrimRight (TrimLeft s)"

text \<open>
  \<^verbatim>\<open>strings.EqualFold\<close>. On two strings of ASCII bytes it compares byte by byte, a letter
  being equal to itself in the other case. As soon as a byte outside ASCII is met it folds
  characters by the Unicode tables of the runtime: that result is the host's.
\<close>

definition isASCII :: "string \<Rightarrow> bool" where
  "isASCII s = list_all (\<lambda>c. (of_char c :: nat) < 128) s"

definition toLower :: "char \<Rightarrow> char" where
  "toLower c = (let n = (of_char c :: nat) in if 65 \<le> n \<and> n \<le> 90 then char_of (n + 32) else c)"

definition EqualFold :: "env \<Rightarrow> string \<Rightarrow> string \<Rightarrow> bool" where
  "EqualFold ev s t =
     (if isASCII s \<and> isASCII t then map toLower s = map toLower t else unicode_fold ev s t)"

text \<open>Decimal digits of a number, most significant first, as \<^verbatim>\<open>strconv\<close> and \<^verbatim>\<open>fmt\<close> write them.\<close>

definition digit_char :: "nat \<Rightarrow> char" where
  "digit_char n = char_of (48 + n)"

function digits :: "nat \<Rightarrow> string" where
  "digits n = (if n < 10 then [digit_char n] else digits (n div 10) @ [digit_char (n mod 10)])"
  by pat_completeness auto
termination
  by (relation "measure (\<lambda>n. n)") auto

declare digits.simps [simp del]

definition zero_pad :: "nat \<Rightarrow> string \<Rightarrow> string" where
  "zero_pad w s = replicate (w - length s) (CHR ''0'') @ s"

text \<open>\<^verbatim>\<open>strconv.Itoa\<close>.\<close>

definition Itoa :: "int \<Rightarrow> string" where
  "Itoa n = (if n < 0 then CHR ''-'' # digits (nat (- n)) else digits (nat n))"

text \<open>\<^verbatim>\<open>fmt.Sprintf\<close> with the verb \<^verbatim>\<open>%0wd\<close>: the sign counts in the width.\<close>

definition Sprintf_0d :: "nat \<Rightarrow> int \<Rightarrow> string" where
  "Sprintf_0d w n =
     (if n < 0 then CHR ''-'' # zero_pad (w - 1) (digits (nat (- n)))
      else zero_pad w (digits (nat n)))"

text \<open>\<^verbatim>\<open>appendInt\<close> of package \<^verbatim>\<open>time\<close>, which \<^verbatim>\<open>Time.Format\<close> uses: the width counts digits only.\<close>

definition appendInt :: "nat \<Rightarrow> int \<Rightarrow> string" where
  "appendInt w n =
     (if n < 0 then CHR ''-'' # zero_pad w (digits (nat (- n)))
      else zero_pad w (digits (nat n)))"

text \<open>
  \<^verbatim>\<open>time.Parse\<close> with the layout \<^verbatim>\<open>2006-01-02\<close>: four digits, a hyphen, two digits, a hyphen,
  two digits and nothing more; the month in 1 to 12 and the day within the month of that
  year. The result is the year, the month and the day.
\<close>

definition isDigit :: "char \<Rightarrow> bool" where
  "isDigit c = (let n = (of_char c :: nat) in 48 \<le> n \<and> n \<le> 57)"

definition digit_val :: "char \<Rightarrow> int" where
  "digit_val c = int (of_char c) - 48"

definition isLeap :: "int \<Rightarrow> bool" where
  "isLeap year = (year mod 4 = 0 \<and> (year mod 100 \<noteq> 0 \<or> year mod 400 = 0))"

definition daysIn :: "int \<Rightarrow> int \<Rightarrow> int" where
  "daysIn m year =
     (if m = 2 then (if isLeap year then 29 else 28)
      else if m = 4 \<or> m = 6 \<or> m = 9 \<or> m = 11 then 30 else 31)"

fun time_Parse :: "string \<Rightarrow> (int \<times> int \<times> int) option" where
  "time_Parse [y1, y2, y3, y4, h1, m1, m2, h2, d1, d2] =
     (if isDigit y1 \<and> isDigit y2 \<and> isDigit y3 \<and> isDigit y4 \<and> h1 = CHR ''-''
         \<and> isDigit m1 \<and> isDigit m2 \<and> h2 = CHR ''-'' \<and> isDigit d1 \<and> isDigit d2
      then
        let year = 1000 * digit_val y1 + 100 * digit_val y2 + 10 * digit_val y3 + digit_val y4;
            month = 10 * digit_val m1 + digit_val m2;
            day = 10 * digit_val d1 + digit_val d2
        in if month \<le> 0 \<or> 12 < month then None
           else if day < 1 \<or> daysIn month year < day then None
           else Some (year, month, day)
      else None)"
| "time_Parse s = None"

declare time_Parse.simps [simp del]

section \<open>Helpers\<close>

definition parseDateOrToday :: "env \<Rightarrow> string \<Rightarrow> error + string" where
  "parseDateOrToday ev s =
     (if TrimSpace s = [] then Inr (today ev)
      else if time_Parse s = None then Inl (ErrInvalidDate s)
      else Inr s)"

definition monthKeyFromDate :: "string \<Rightarrow> string option" where
  "monthKeyFromDate date =
     (case time_Parse date of
        None \<Rightarrow> None
      | Some (y, m, d) \<Rightarrow> Some (appendInt 4 y @ ''-'' @ appendInt 2 m))"

fun sumForMonth_loop :: "env \<Rightarrow> string \<Rightarrow> string \<Rightarrow> Expense list \<Rightarrow> real \<Rightarrow> real" where
  "sumForMonth_loop ev key category [] tot = tot"
| "sumForMonth_loop ev key category (e # es) tot =
     (case monthKeyFromDate (Date e) of
        None \<Rightarrow> sumForMonth_loop ev key category es tot
      | Some mk \<Rightarrow>
          if mk = key \<and> (category = [] \<or> EqualFold ev category (Category e))
          then sumForMonth_loop ev key category es (float_add ev tot (Amount e))
          else sumForMonth_loop ev key category es tot)"

definition sumForMonth :: "env \<Rightarrow> Store \<Rightarrow> string \<Rightarrow> string \<Rightarrow> real" where
  "sumForMonth ev st key category = sumForMonth_loop ev key category (Expenses st) 0"

text \<open>\<open>findByID\<close> returns the index of the first expense with the identifier; the pointer the
  source returns with it is the element at that index.\<close>

fun findByID_loop :: "Expense list \<Rightarrow> int \<Rightarrow> nat \<Rightarrow> nat option" where
  "findByID_loop [] i k = None"
| "findByID_loop (e # es) i k = (if ID e = i then Some k else findByID_loop es i (Suc k))"

definition findByID :: "Store \<Rightarrow> int \<Rightarrow> nat option" where
  "findByID st i = findByID_loop (Expenses st) i 0"

text \<open>Reading a key of a map that may be nil.\<close>

definition map_get :: "(string \<rightharpoonup> real) option \<Rightarrow> string \<Rightarrow> real option" where
  "map_get bm k = (case bm of None \<Rightarrow> None | Some m \<Rightarrow> m k)"

text \<open>The rows \<open>printTable\<close> writes after its two header lines: the identifier, the date, the
  shortened description, the shortened category, the amount.\<close>

type_synonym table_row = "int \<times> string \<times> string \<times> string \<times> real"

definition table_row_of :: "Expense \<Rightarrow> table_row" where
  "table_row_of e =
     (let desc = (if 32 < length (Description e) then take 29 (Description e) @ ''...''
                  else Description e);
          cat = (if 14 < length (Category e) then take 11 (Category e) @ ''...''
                 else Category e)
      in (ID e, Date e, desc, cat, Amount e))"

definition printTable :: "Expense list \<Rightarrow> table_row list" where
  "printTable expenses = map table_row_of expenses"

text \<open>The warning, when printed: the month key, the budget and the sum spent.\<close>

type_synonym warning = "string \<times> real \<times> real"

definition warnIfBudgetExceeded ::
  "env \<Rightarrow> Store \<Rightarrow> string \<Rightarrow> string \<Rightarrow> warning option" where
  "warnIfBudgetExceeded ev st date category =
     (case monthKeyFromDate date of
        None \<Rightarrow> None
      | Some mk \<Rightarrow>
          (case map_get (Budgets st) mk of
             None \<Rightarrow> None
           | Some budget \<Rightarrow>
               if budget \<le> 0 then None
               else let tot = sumForMonth ev st mk category
                    in if budget < tot then Some (mk, budget, tot) else None))"

section \<open>Commands\<close>

text \<open>
  The flags of each command after package \<^verbatim>\<open>flag\<close> has parsed them: \<open>None\<close> is a flag that was
  not given, and \<open>flagval\<close> reads a flag with the default its declaration names. Every command
  takes the host and the data file, and the commands that write return the file after the
  call next to their result.
\<close>

definition flagval :: "'a \<Rightarrow> 'a option \<Rightarrow> 'a" where
  "flagval d v = (case v of None \<Rightarrow> d | Some x \<Rightarrow> x)"

record add_flags =
  a_description :: "string option"
  a_amount :: "real option"
  a_date :: "string option"
  a_category :: "string option"

definition cmdAdd ::
  "env \<Rightarrow> add_flags \<Rightarrow> data_file \<Rightarrow> data_file \<times> (error + int \<times> warning option)" where
  "cmdAdd ev fl f =
     (let desc = flagval [] (a_description fl);
          amount = flagval 0 (a_amount fl);
          date = flagval [] (a_date fl);
          cat = flagval defaultCat (a_category fl)
      in if TrimSpace desc = [] then (f, Inl ErrDescriptionRequired)
         else if amount \<le> 0 then (f, Inl ErrAmountNotPositive)
         else case parseDateOrToday ev date of
           Inl err \<Rightarrow> (f, Inl err)
         | Inr d \<Rightarrow>
             (case loadStore ev f of
                Inl err \<Rightarrow> (f, Inl err)
              | Inr st \<Rightarrow>
                  let e = \<lparr>ID = NextID st, Date = d, Description = TrimSpace desc,
                           Amount = amount, Category = TrimSpace cat,
                           CreatedAt = now_created ev, UpdatedAt = now_updated ev\<rparr>;
                      st1 = st\<lparr>Expenses := Expenses st @ [e]\<rparr>;
                      st2 = st1\<lparr>NextID := int_incr (NextID st1)\<rparr>
                  in case save ev st2 f of
                       (f', Some err) \<Rightarrow> (f', Inl err)
                     | (f', None) \<Rightarrow> (f', Inr (ID e, warnIfBudgetExceeded ev st2 (Date e) []))))"

text \<open>Names for two values inside \<open>cmdAdd\<close>, used to state facts about it: the expense it
  builds from the flags, the store loaded and the date, and the store it then saves.\<close>

definition added_expense :: "env \<Rightarrow> add_flags \<Rightarrow> Store \<Rightarrow> string \<Rightarrow> Expense" where
  "added_expense ev fl st d =
     \<lparr>ID = NextID st, Date = d,
      Description = TrimSpace (flagval [] (a_description fl)),
      Amount = flagval 0 (a_amount fl),
      Category = TrimSpace (flagval defaultCat (a_category fl)),
      CreatedAt = now_created ev, UpdatedAt = now_updated ev\<rparr>"

definition store_after_add :: "env \<Rightarrow> add_flags \<Rightarrow> Store \<Rightarrow> string \<Rightarrow> Store" where
  "store_after_add ev fl st d =
     st\<lparr>Expenses := Expenses st @ [added_expense ev fl st d],
        NextID := int_incr (NextID st)\<rparr>"

text \<open>
  The amount of an update is a \<^verbatim>\<open>floatFlag\<close>: \<open>u_amount\<close> is \<open>Some v\<close> exactly when the flag was
  set, to \<open>v\<close>.

  \<open>update_fields\<close> is the block of \<open>cmdUpdate\<close> that writes through the pointer to the expense
  found: it returns the expense as it stands in memory when the block ends, and the error
  when the block ends by returning one.
\<close>

record update_flags =
  u_id :: "int option"
  u_description :: "string option"
  u_amount :: "real option"
  u_date :: "string option"
  u_category :: "string option"

definition update_fields :: "env \<Rightarrow> update_flags \<Rightarrow> Expense \<Rightarrow> Expense \<times> error option" where
  "update_fields ev fl e =
     (let desc = flagval [] (u_description fl);
          date = flagval [] (u_date fl);
          cat = flagval [] (u_category fl);
          e1 = (if TrimSpace desc \<noteq> [] then e\<lparr>Description := TrimSpace desc\<rparr> else e)
      in if (case u_amount fl of None \<Rightarrow> False | Some v \<Rightarrow> v \<le> 0)
         then (e1, Some ErrAmountNotPositive)
         else
           let e2 = (case u_amount fl of None \<Rightarrow> e1 | Some v \<Rightarrow> e1\<lparr>Amount := v\<rparr>)
           in if TrimSpace date \<noteq> [] \<and> time_Parse date = None
              then (e2, Some (ErrInvalidDate date))
              else
                let e3 = (if TrimSpace date \<noteq> [] then e2\<lparr>Date := date\<rparr> else e2);
                    e4 = (if TrimSpace cat \<noteq> [] then e3\<lparr>Category := TrimSpace cat\<rparr> else e3)
                in (e4\<lparr>UpdatedAt := now_updated ev\<rparr>, None))"

definition cmdUpdate ::
  "env \<Rightarrow> update_flags \<Rightarrow> data_file \<Rightarrow> data_file \<times> (error + warning option)" where
  "cmdUpdate ev fl f =
     (let i = flagval 0 (u_id fl)
      in if i \<le> 0 then (f, Inl ErrIdRequired)
         else case loadStore ev f of
           Inl err \<Rightarrow> (f, Inl err)
         | Inr st \<Rightarrow>
             (case findByID st i of
                None \<Rightarrow> (f, Inl (ErrNotFound i))
              | Some k \<Rightarrow>
                  (case update_fields ev fl (Expenses st ! k) of
                     (e, Some err) \<Rightarrow> (f, Inl err)
                   | (e, None) \<Rightarrow>
                       let st1 = st\<lparr>Expenses := (Expenses st)[k := e]\<rparr>
                       in case save ev st1 f of
                            (f', Some err) \<Rightarrow> (f', Inl err)
                          | (f', None) \<Rightarrow> (f', Inr (warnIfBudgetExceeded ev st1 (Date e) [])))))"

record delete_flags =
  d_id :: "int option"

definition cmdDelete :: "env \<Rightarrow> delete_flags \<Rightarrow> data_file \<Rightarrow> data_file \<times> (error + unit)" where
  "cmdDelete ev fl f =
     (let i = flagval 0 (d_id fl)
      in if i \<le> 0 then (f, Inl ErrIdRequired)
         else case loadStore ev f of
           Inl err \<Rightarrow> (f, Inl err)
         | Inr st \<Rightarrow>
             (case findByID st i of
                None \<Rightarrow> (f, Inl (ErrNotFound i))
              | Some idx \<Rightarrow>
                  let st1 = st\<lparr>Expenses := take idx (Expenses st) @ drop (idx + 1) (Expenses st)\<rparr>
                  in case save ev st1 f of
                       (f', Some err) \<Rightarrow> (f', Inl err)
                     | (f', None) \<Rightarrow> (f', Inr ())))"

text \<open>
  \<open>filterExpenses\<close>: the loop that collects, then \<^verbatim>\<open>sort.Slice\<close> with the comparison of the
  source. \<^verbatim>\<open>sort.Slice\<close> is library code that promises a permutation in which no element
  is followed by one that the comparison puts before it; it is modelled by insertion sort,
  which the library runs on short slices. The order it leaves between two expenses with
  the same date and identifier is not specified by Go, and no theorem below depends on it.
\<close>

fun filterExpenses_loop ::
  "env \<Rightarrow> int \<Rightarrow> int \<Rightarrow> string \<Rightarrow> Expense list \<Rightarrow> Expense list \<Rightarrow> Expense list" where
  "filterExpenses_loop ev month year category [] out = out"
| "filterExpenses_loop ev month year category (e # es) out =
     (if category \<noteq> [] \<and> \<not> EqualFold ev category (Category e)
      then filterExpenses_loop ev month year category es out
      else if 0 < month \<or> 0 < year then
        (case time_Parse (Date e) of
           None \<Rightarrow> filterExpenses_loop ev month year category es out
         | Some (y, m, d) \<Rightarrow>
             if 0 < year \<and> y \<noteq> year then filterExpenses_loop ev month year category es out
             else if 0 < month \<and> m \<noteq> month then filterExpenses_loop ev month year category es out
             else filterExpenses_loop ev month year category es (out @ [e]))
      else filterExpenses_loop ev month year category es (out @ [e]))"

definition less_expense :: "Expense \<Rightarrow> Expense \<Rightarrow> bool" where
  "less_expense a b = (Date a < Date b \<or> (Date a = Date b \<and> ID a < ID b))"

fun sort_insert :: "('a \<Rightarrow> 'a \<Rightarrow> bool) \<Rightarrow> 'a \<Rightarrow> 'a list \<Rightarrow> 'a list" where
  "sort_insert lt x [] = [x]"
| "sort_insert lt x (y # ys) = (if lt x y then x # y # ys else y # sort_insert lt x ys)"

fun sort_Slice :: "('a \<Rightarrow> 'a \<Rightarrow> bool) \<Rightarrow> 'a list \<Rightarrow> 'a list" where
  "sort_Slice lt [] = []"
| "sort_Slice lt (x # xs) = sort_insert lt x (sort_Slice lt xs)"

definition filterExpenses :: "env \<Rightarrow> Store \<Rightarrow> int \<Rightarrow> int \<Rightarrow> string \<Rightarrow> Expense list" where
  "filterExpenses ev st month year category =
     sort_Slice less_expense (filterExpenses_loop ev month year category (Expenses st) [])"

record list_flags =
  l_category :: "string option"
  l_month :: "int option"
  l_year :: "int option"

definition cmdList :: "env \<Rightarrow> list_flags \<Rightarrow> data_file \<Rightarrow> error + table_row list" where
  "cmdList ev fl f =
     (let category = flagval [] (l_category fl);
          month = flagval 0 (l_month fl);
          year = flagval 0 (l_year fl)
      in case loadStore ev f of
           Inl err \<Rightarrow> Inl err
         | Inr st \<Rightarrow>
             if month \<noteq> 0 \<and> (month < 1 \<or> 12 < month) then Inl ErrMonthRange
             else
               let year1 = (if 0 < month \<and> year = 0 then this_year ev else year);
                   items = filterExpenses ev st month year1 (TrimSpace category)
               in Inr (printTable items))"

record summary_flags =
  s_month :: "int option"
  s_category :: "string option"

text \<open>What \<open>cmdSummary\<close> prints: the sum, with the category and the month when they were
  given (the month by its number).\<close>

datatype summary_out =
    TotalAll real
  | TotalCategory string real
  | TotalMonth int real
  | TotalMonthCategory int string real

fun summary_all_loop :: "env \<Rightarrow> string \<Rightarrow> Expense list \<Rightarrow> real \<Rightarrow> real" where
  "summary_all_loop ev category [] tot = tot"
| "summary_all_loop ev category (e # es) tot =
     (if category = [] \<or> EqualFold ev category (Category e)
      then summary_all_loop ev category es (float_add ev tot (Amount e))
      else summary_all_loop ev category es tot)"

definition cmdSummary :: "env \<Rightarrow> summary_flags \<Rightarrow> data_file \<Rightarrow> error + summary_out" where
  "cmdSummary ev fl f =
     (let month = flagval 0 (s_month fl);
          category = flagval [] (s_category fl)
      in case loadStore ev f of
           Inl err \<Rightarrow> Inl err
         | Inr st \<Rightarrow>
             if month = 0 then
               (let tot = summary_all_loop ev category (Expenses st) 0
                in if category = [] then Inr (TotalAll tot) else Inr (TotalCategory category tot))
             else if month < 1 \<or> 12 < month then Inl ErrMonthRange
             else
               let year = this_year ev;
                   mk = Sprintf_0d 4 year @ ''-'' @ Sprintf_0d 2 month;
                   tot = sumForMonth ev st mk (TrimSpace category)
               in if TrimSpace category = [] then Inr (TotalMonth month tot)
                  else Inr (TotalMonthCategory month category tot))"

record budget_flags =
  b_set :: "real option"
  b_month :: "int option"
  b_year :: "int option"

text \<open>What \<open>cmdBudget\<close> prints: the budget it has set; that none is set; or the budget with
  the sum spent and the remainder.\<close>

datatype budget_out =
    BudgetSet string real
  | NoBudget string
  | BudgetStatus string real real real

definition cmdBudget ::
  "env \<Rightarrow> budget_flags \<Rightarrow> data_file \<Rightarrow> data_file \<times> (error + budget_out)" where
  "cmdBudget ev fl f =
     (let set_to = flagval (- 1) (b_set fl);
          month0 = flagval 0 (b_month fl);
          year0 = flagval 0 (b_year fl);
          month = (if month0 = 0 then this_month ev else month0);
          year = (if year0 = 0 then this_year ev else year0)
      in if month < 1 \<or> 12 < month then (f, Inl ErrMonthRange)
         else
           let mk = Sprintf_0d 4 year @ ''-'' @ Sprintf_0d 2 month
           in case loadStore ev f of
                Inl err \<Rightarrow> (f, Inl err)
              | Inr st \<Rightarrow>
                  if 0 \<le> set_to then
                    (case Budgets st of
                       None \<Rightarrow> (f, Inl PanicNilMap)
                     | Some m \<Rightarrow>
                         let st1 = st\<lparr>Budgets := Some (m(mk \<mapsto> set_to))\<rparr>
                         in case save ev st1 f of
                              (f', Some err) \<Rightarrow> (f', Inl err)
                            | (f', None) \<Rightarrow> (f', Inr (BudgetSet mk set_to)))
                  else
                    (case map_get (Budgets st) mk of
                       None \<Rightarrow> (f, Inr (NoBudget mk))
                     | Some budget \<Rightarrow>
                         if budget \<le> 0 then (f, Inr (NoBudget mk))
                         else
                           let spent = sumForMonth ev st mk []
                           in (f, Inr (BudgetStatus mk budget spent (float_sub ev budget spent)))))"

text \<open>Names for three values inside \<open>cmdBudget\<close>: the month and the year after the clock's
  have replaced a flag that is 0, and the month key made of them.\<close>

definition budget_month :: "env \<Rightarrow> budget_flags \<Rightarrow> int" where
  "budget_month ev fl = (if flagval 0 (b_month fl) = 0 then this_month ev else flagval 0 (b_month fl))"

definition budget_year :: "env \<Rightarrow> budget_flags \<Rightarrow> int" where
  "budget_year ev fl = (if flagval 0 (b_year fl) = 0 then this_year ev else flagval 0 (b_year fl))"

definition budget_key :: "env \<Rightarrow> budget_flags \<Rightarrow> string" where
  "budget_key ev fl = Sprintf_0d 4 (budget_year ev fl) @ ''-'' @ Sprintf_0d 2 (budget_month ev fl)"

record export_flags =
  x_output :: "string option"
  x_category :: "string option"
  x_month :: "int option"
  x_year :: "int option"

text \<open>
  The rows \<open>cmdExport\<close> hands to the CSV writer after the header row (the amount of a row
  stands for its two-decimal rendering), and what the command returns when it returns no
  error: the rows that the file holds after the header when the command ends, if all were
  written, and the number of rows it reports.

  The writer collects the rows in a buffer. The program asks it for an error after the
  loop and before the deferred \<^verbatim>\<open>Flush\<close>: it sees a failed write only if the rows outgrew the
  buffer inside the loop. A write that fails in the deferred \<^verbatim>\<open>Flush\<close> is not seen: the
  command reports its rows and returns no error, and the file does not hold them.
\<close>

type_synonym csv_row = "string \<times> string \<times> string \<times> string \<times> real"

definition csv_row_of :: "Expense \<Rightarrow> csv_row" where
  "csv_row_of e = (Itoa (ID e), Date e, Description e, Category e, Amount e)"

record export_out =
  rows_written :: "csv_row list option"
  rows_reported :: nat

definition cmdExport :: "env \<Rightarrow> export_flags \<Rightarrow> data_file \<Rightarrow> error + export_out" where
  "cmdExport ev fl f =
     (let category = flagval [] (x_category fl);
          month = flagval 0 (x_month fl);
          year = flagval 0 (x_year fl)
      in case loadStore ev f of
           Inl err \<Rightarrow> Inl err
         | Inr st \<Rightarrow>
             if month \<noteq> 0 \<and> (month < 1 \<or> 12 < month) then Inl ErrMonthRange
             else
               let year1 = (if 0 < month \<and> year = 0 then this_year ev else year);
                   items = filterExpenses ev st month year1 (TrimSpace category)
               in if \<not> export_create_ok ev then Inl ErrExportCreate
                  else
                    let rows = map csv_row_of items
                    in if \<not> export_write_ok ev \<and> export_outgrows_buffer ev
                       then Inl ErrExportWrite
                       else Inr \<lparr>rows_written = (if export_write_ok ev then Some rows else None),
                                 rows_reported = length items\<rparr>)"

section \<open>Dispatch and runs\<close>

text \<open>\<open>exec\<close> is the data file after \<open>main\<close> has run one command; \<open>run\<close> is the file after a
  sequence of invocations, each with the host it met. An export is taken to write to a
  path other than the data path.\<close>

datatype command =
    Add add_flags
  | Update update_flags
  | Delete delete_flags
  | List list_flags
  | Summary summary_flags
  | Budget budget_flags
  | Export export_flags

fun exec :: "env \<Rightarrow> command \<Rightarrow> data_file \<Rightarrow> data_file" where
  "exec ev (Add fl) f = fst (cmdAdd ev fl f)"
| "exec ev (Update fl) f = fst (cmdUpdate ev fl f)"
| "exec ev (Delete fl) f = fst (cmdDelete ev fl f)"
| "exec ev (List fl) f = f"
| "exec ev (Summary fl) f = f"
| "exec ev (Budget fl) f = fst (cmdBudget ev fl f)"
| "exec ev (Export fl) f = f"

fun run :: "data_file \<Rightarrow> (env \<times> command) list \<Rightarrow> data_file" where
  "run f [] = f"
| "run f ((ev, c) # cs) = run (exec ev c f) cs"

section \<open>The specification's wording of trimming\<close>

text \<open>
  \<open>blank s\<close>: the string is made of white space only. \<open>spec_trimmed_of s t\<close>: \<open>t\<close> is \<open>s\<close>
  without its leading and its trailing white space, that is, \<open>s\<close> is white space, then
  \<open>t\<close>, then white space, and \<open>t\<close> neither begins nor ends with white space.
\<close>

inductive blank :: "string \<Rightarrow> bool" where
  blank_Nil: "blank []"
| blank_Cons: "w \<in> set space_runes \<Longrightarrow> blank s \<Longrightarrow> blank (w @ s)"

definition spec_trimmed_of :: "string \<Rightarrow> string \<Rightarrow> bool" where
  "spec_trimmed_of s t =
     ((\<exists>pre post. s = pre @ t @ post \<and> blank pre \<and> blank post)
      \<and> \<not> list_ex (\<lambda>w. is_head w t) space_runes
      \<and> \<not> list_ex (\<lambda>w. is_tail w t) space_runes)"

section \<open>The specification's wording of the filter\<close>

text \<open>
  Two categories are equal without regard to letter case: for ASCII text, they have the
  same length and at every position the same byte, or the same letter once as a capital
  (65 to 90) and once small (32 more); for other text, as the Unicode folding of the
  runtime says.

  What the specification asks of an expense that \<open>filter\<close> returns: it satisfies every
  constraint supplied. A category constraint is supplied when the text is not empty; a
  month or a year constraint is supplied when the number is above 0 and holds when the date
  parses and has that month or year.
\<close>

definition spec_same_letter :: "char \<Rightarrow> char \<Rightarrow> bool" where
  "spec_same_letter a b =
     (a = b
      \<or> (byte_in 65 90 a \<and> (of_char b :: nat) = of_char a + 32)
      \<or> (byte_in 65 90 b \<and> (of_char a :: nat) = of_char b + 32))"

definition spec_equal_ignoring_case :: "env \<Rightarrow> string \<Rightarrow> string \<Rightarrow> bool" where
  "spec_equal_ignoring_case ev s t =
     (if isASCII s \<and> isASCII t then list_all2 spec_same_letter s t else unicode_fold ev s t)"

definition spec_matches :: "env \<Rightarrow> int \<Rightarrow> int \<Rightarrow> string \<Rightarrow> Expense \<Rightarrow> bool" where
  "spec_matches ev month year category e =
     ((category = [] \<or> spec_equal_ignoring_case ev category (Category e))
      \<and> (0 < month \<or> 0 < year \<longrightarrow>
           (case time_Parse (Date e) of
              None \<Rightarrow> False
            | Some (y, m, d) \<Rightarrow> (0 < year \<longrightarrow> y = year) \<and> (0 < month \<longrightarrow> m = month))))"

text \<open>Ascending by date text, and by identifier where the dates are equal.\<close>

definition spec_date_id_order :: "Expense \<Rightarrow> Expense \<Rightarrow> bool" where
  "spec_date_id_order a b = (Date a < Date b \<or> (Date a = Date b \<and> ID a \<le> ID b))"

section \<open>The specification's wording of the budget warning\<close>

text \<open>
  The month key of a date that parses is its first seven characters, \<^verbatim>\<open>YYYY-MM\<close>; a date
  that does not parse has none. The sum of a month key is the sum, in the order of the
  store and as \<^verbatim>\<open>float64\<close> adds, of the amounts of all expenses whose date has that month key,
  whatever their category. The specification has the warning printed for a date when the
  date has a month key, a budget above 0 is set for that key, and the sum of the key is
  above the budget.
\<close>

definition spec_month_key :: "string \<Rightarrow> string option" where
  "spec_month_key date = (if time_Parse date = None then None else Some (take 7 date))"

definition spec_month_total :: "env \<Rightarrow> Store \<Rightarrow> string \<Rightarrow> real" where
  "spec_month_total ev st mk =
     foldl (float_add ev) 0
       (map Amount (filter (\<lambda>e. spec_month_key (Date e) = Some mk) (Expenses st)))"

definition spec_budget_exceeded :: "env \<Rightarrow> Store \<Rightarrow> string \<Rightarrow> bool" where
  "spec_budget_exceeded ev st date =
     (case spec_month_key date of
        None \<Rightarrow> False
      | Some mk \<Rightarrow>
          (case map_get (Budgets st) mk of
             None \<Rightarrow> False
           | Some b \<Rightarrow> 0 < b \<and> b < spec_month_total ev st mk))"

section \<open>Stores that a document can hold\<close>

text \<open>
  A string is valid UTF-8 when it is a sequence of UTF-8 sequences. Every string that the
  JSON decoder returns is valid UTF-8; \<open>utf8_store\<close> says so of the strings of a store:
  the dates, descriptions and categories of its expenses and the keys of its budgets.
\<close>

function utf8_valid :: "string \<Rightarrow> bool" where
  "utf8_valid s =
     (if s = [] then True
      else if utf8_width s = 0 then False
      else utf8_valid (drop (utf8_width s) s))"
  by pat_completeness auto
termination
  by (relation "measure length") auto

declare utf8_valid.simps [simp del]

definition utf8_store :: "Store \<Rightarrow> bool" where
  "utf8_store st =
     ((\<forall>e \<in> set (Expenses st).
         utf8_valid (Date e) \<and> utf8_valid (Description e) \<and> utf8_valid (Category e))
      \<and> (\<forall>m k. Budgets st = Some m \<longrightarrow> k \<in> dom m \<longrightarrow> utf8_valid k))"

section \<open>Properties of files and stores\<close>

text \<open>\<open>stored f\<close> is the store that a load of the file returns whenever it succeeds.\<close>

definition stored :: "data_file \<Rightarrow> Store option" where
  "stored f =
     (case f of
        NotExist \<Rightarrow> Some \<lparr>NextID = 1, Expenses = [], Budgets = Some Map.empty\<rparr>
      | Undecodable \<Rightarrow> None
      | Doc st0 \<Rightarrow>
          Some (st0\<lparr>NextID := (if NextID st0 = 0 then 1 else NextID st0),
                    Budgets := (case Budgets st0 of None \<Rightarrow> Some Map.empty | Some m \<Rightarrow> Some m)\<rparr>))"

text \<open>Every identifier in the store is below the next identifier; no budget is negative.\<close>

definition ids_below :: "Store \<Rightarrow> bool" where
  "ids_below st = (\<forall>e \<in> set (Expenses st). ID e < NextID st)"

definition budgets_nonneg :: "Store \<Rightarrow> bool" where
  "budgets_nonneg st = (\<forall>k v. map_get (Budgets st) k = Some v \<longrightarrow> 0 \<le> v)"

section \<open>Sample hosts, flags and stores\<close>

text \<open>
  A host on which every call into the operating system succeeds, at a fixed time. Its sums
  and differences are exact, as those of \<^verbatim>\<open>float64\<close> are on the whole amounts of the samples
  below, and its folding of text outside ASCII holds equal strings equal; the samples that
  are compared are ASCII. \<open>host1\<close> is the same host a moment later. On \<open>full_disk\<close> the export
  file can be created and no write to it succeeds.
\<close>

definition host0 :: env where
  "host0 = \<lparr>home_ok = True, readable = True, writable = True, now_created = 100,
     now_updated = 101, today = ''2025-08-09'', this_year = 2025, this_month = 8,
     export_create_ok = True, export_write_ok = True, export_outgrows_buffer = False,
     float_add = (\<lambda>a b. a + b), float_sub = (\<lambda>a b. a - b),
     unicode_fold = (\<lambda>s t. s = t)\<rparr>"

definition host1 :: env where
  "host1 = host0\<lparr>now_created := 200, now_updated := 201\<rparr>"

definition full_disk :: env where
  "full_disk = host0\<lparr>export_write_ok := False\<rparr>"

text \<open>The store that a load of the absent file returns, and what a document with no
  \<^verbatim>\<open>next_id\<close> and no \<^verbatim>\<open>budgets\<close> decodes to.\<close>

definition fresh_store :: Store where
  "fresh_store = \<lparr>NextID = 1, Expenses = [], Budgets = Some Map.empty\<rparr>"

definition old_store :: Store where
  "old_store = \<lparr>NextID = 0, Expenses = [], Budgets = None\<rparr>"

text \<open>Two expenses a day apart, the store that holds the first after it was added to an
  absent file, the store that holds both, and a store that holds them in the opposite
  order.\<close>

definition lunch :: Expense where
  "lunch = \<lparr>ID = 1, Date = ''2025-08-09'', Description = ''Lunch'', Amount = 40,
     Category = ''General'', CreatedAt = 100, UpdatedAt = 101\<rparr>"

definition dinner :: Expense where
  "dinner = \<lparr>ID = 2, Date = ''2025-08-10'', Description = ''Dinner'', Amount = 20,
     Category = ''General'', CreatedAt = 100, UpdatedAt = 101\<rparr>"

definition lunch_store :: Store where
  "lunch_store = \<lparr>NextID = 2, Expenses = [lunch], Budgets = Some Map.empty\<rparr>"

definition two_store :: Store where
  "two_store = \<lparr>NextID = 3, Expenses = [lunch, dinner], Budgets = Some Map.empty\<rparr>"

definition swapped_store :: Store where
  "swapped_store = \<lparr>NextID = 3, Expenses = [dinner, lunch], Budgets = Some Map.empty\<rparr>"

text \<open>\<^verbatim>\<open>update --id 2 --description X --amount 0\<close>, where \<^verbatim>\<open>X\<close> is a no-break space (U+00A0),
  \<^verbatim>\<open>Supper\<close> and a space; and \<^verbatim>\<open>update --id i\<close>.\<close>

definition bad_amount_update :: update_flags where
  "bad_amount_update =
     \<lparr>u_id = Some 2, u_description = Some (CHR 0xC2 # CHR 0xA0 # ''Supper ''),
      u_amount = Some 0, u_date = None, u_category = None\<rparr>"

definition bare_update :: "int \<Rightarrow> update_flags" where
  "bare_update i = \<lparr>u_id = Some i, u_description = None, u_amount = None, u_date = None,
     u_category = None\<rparr>"

text \<open>A store whose next identifier is 0, the zero value of the field, and one whose next
  identifier is the largest \<^verbatim>\<open>int\<close>.\<close>

definition zero_next_store :: Store where
  "zero_next_store = \<lparr>NextID = 0, Expenses = [], Budgets = Some Map.empty\<rparr>"

definition max_store :: Store where
  "max_store = \<lparr>NextID = 9223372036854775807, Expenses = [], Budgets = Some Map.empty\<rparr>"

text \<open>
  \<^verbatim>\<open>add --description Lunch --amount 40 --date 2025-08-09\<close>; the same with a category of two
  spaces, \<^verbatim>\<open>Food\<close> and a tab; the same with a category of a no-break space (U+00A0) and an
  ideographic space (U+3000); the same with a description of the one byte FF, which is not
  UTF-8; and \<^verbatim>\<open>add --description Dinner --amount 20 --date 2025-08-10\<close>.
\<close>

definition add_lunch :: add_flags where
  "add_lunch = \<lparr>a_description = Some ''Lunch'', a_amount = Some 40,
     a_date = Some ''2025-08-09'', a_category = None\<rparr>"

definition add_lunch_food :: add_flags where
  "add_lunch_food = \<lparr>a_description = Some ''Lunch'', a_amount = Some 40,
     a_date = Some ''2025-08-09'', a_category = Some [CHR '' '', CHR '' '', CHR ''F'', CHR ''o'', CHR ''o'', CHR ''d'', CHR 0x09]\<rparr>"

definition add_lunch_blank_category :: add_flags where
  "add_lunch_blank_category = \<lparr>a_description = Some ''Lunch'', a_amount = Some 40,
     a_date = Some ''2025-08-09'',
     a_category = Some [CHR 0xC2, CHR 0xA0, CHR 0xE3, CHR 0x80, CHR 0x80]\<rparr>"

definition add_byte_ff :: add_flags where
  "add_byte_ff = \<lparr>a_description = Some [CHR 0xFF], a_amount = Some 40,
     a_date = Some ''2025-08-09'', a_category = None\<rparr>"

definition add_dinner :: add_flags where
  "add_dinner = \<lparr>a_description = Some ''Dinner'', a_amount = Some 20,
     a_date = Some ''2025-08-10'', a_category = None\<rparr>"

text \<open>The store that the add with the byte FF hands to \<open>save\<close>, and the store that the
  document written decodes to: the description is U+FFFD.\<close>

definition byte_ff_store :: Store where
  "byte_ff_store =
     \<lparr>NextID = 2, Expenses = [lunch\<lparr>Description := [CHR 0xFF]\<rparr>], Budgets = Some Map.empty\<rparr>"

definition replaced_store :: Store where
  "replaced_store =
     \<lparr>NextID = 2, Expenses = [lunch\<lparr>Description := [CHR 0xEF, CHR 0xBF, CHR 0xBD]\<rparr>],
      Budgets = Some Map.empty\<rparr>"

text \<open>
  Five more expenses: two of August 2025 with the category \<^verbatim>\<open>Food\<close> in two spellings, on
  one day; one of July 2025, one of August 2024 and one whose date is not a date. A store
  that holds them with the lunch and the dinner, in no order.
\<close>

definition snack :: Expense where
  "snack = \<lparr>ID = 3, Date = ''2025-08-05'', Description = ''Snack'', Amount = 5,
     Category = ''FOOD'', CreatedAt = 100, UpdatedAt = 101\<rparr>"

definition july :: Expense where
  "july = \<lparr>ID = 4, Date = ''2025-07-20'', Description = ''Picnic'', Amount = 30,
     Category = ''Food'', CreatedAt = 100, UpdatedAt = 101\<rparr>"

definition last_year :: Expense where
  "last_year = \<lparr>ID = 5, Date = ''2024-08-09'', Description = ''Fair'', Amount = 15,
     Category = ''food'', CreatedAt = 100, UpdatedAt = 101\<rparr>"

definition undated :: Expense where
  "undated = \<lparr>ID = 6, Date = ''someday'', Description = ''Cake'', Amount = 100,
     Category = ''food'', CreatedAt = 100, UpdatedAt = 101\<rparr>"

definition groceries :: Expense where
  "groceries = \<lparr>ID = 7, Date = ''2025-08-05'', Description = ''Groceries'', Amount = 25,
     Category = ''Food'', CreatedAt = 100, UpdatedAt = 101\<rparr>"

definition mixed_store :: Store where
  "mixed_store =
     \<lparr>NextID = 8, Expenses = [dinner, groceries, july, lunch, last_year, undated, snack],
      Budgets = Some Map.empty\<rparr>"

text \<open>\<^verbatim>\<open>list --month 8\<close> and \<^verbatim>\<open>export --month 8\<close>.\<close>

definition list_august :: list_flags where
  "list_august = \<lparr>l_category = None, l_month = Some 8, l_year = None\<rparr>"

definition export_august :: export_flags where
  "export_august = \<lparr>x_output = None, x_category = None, x_month = Some 8, x_year = None\<rparr>"

text \<open>\<^verbatim>\<open>budget --set 0 --month 8 --year 2025\<close>, the same with 50, and \<^verbatim>\<open>delete --id 1\<close>.\<close>

definition set_budget_zero :: budget_flags where
  "set_budget_zero = \<lparr>b_set = Some 0, b_month = Some 8, b_year = Some 2025\<rparr>"

definition set_budget_50 :: budget_flags where
  "set_budget_50 = \<lparr>b_set = Some 50, b_month = Some 8, b_year = Some 2025\<rparr>"

definition delete_1 :: delete_flags where
  "delete_1 = \<lparr>d_id = Some 1\<rparr>"

text \<open>The stores of the scenario: a budget of 50 for August 2025, then the lunch, then the
  dinner. And a store with that budget that holds, before the lunch, an expense of July and
  one without a date.\<close>

definition budget_store :: Store where
  "budget_store = \<lparr>NextID = 1, Expenses = [], Budgets = Some [''2025-08'' \<mapsto> 50]\<rparr>"

definition budget_lunch_store :: Store where
  "budget_lunch_store = \<lparr>NextID = 2, Expenses = [lunch], Budgets = Some [''2025-08'' \<mapsto> 50]\<rparr>"

definition budget_two_store :: Store where
  "budget_two_store =
     \<lparr>NextID = 3, Expenses = [lunch, dinner], Budgets = Some [''2025-08'' \<mapsto> 50]\<rparr>"

definition budget_mixed_store :: Store where
  "budget_mixed_store =
     \<lparr>NextID = 8, Expenses = [july, undated, lunch], Budgets = Some [''2025-08'' \<mapsto> 50]\<rparr>"

section \<open>Facts about the helpers\<close>

lemma findByID_loop_Some:
  "findByID_loop es i n = Some k \<Longrightarrow> n \<le> k \<and> k - n < length es \<and> ID (es ! (k - n)) = i"
proof (induction es arbitrary: n)
  case Nil
  then show ?case by simp
next
  case (Cons e es)
  show ?case
  proof (cases "ID e = i")
    case True
    with Cons.prems show ?thesis by simp
  next
    case False
    with Cons.prems have "findByID_loop es i (Suc n) = Some k" by simp
    from Cons.IH [OF this] have "Suc n \<le> k" "k - Suc n < length es" "ID (es ! (k - Suc n)) = i"
      by simp_all
    then show ?thesis by (simp add: nth_Cons')
  qed
qed

lemma findByID_loop_first:
  "findByID_loop es i n = Some k \<Longrightarrow> j < k - n \<Longrightarrow> ID (es ! j) \<noteq> i"
proof (induction es arbitrary: n j)
  case Nil
  then show ?case by simp
next
  case (Cons e es)
  show ?case
  proof (cases "ID e = i")
    case True
    with Cons.prems show ?thesis by simp
  next
    case False
    with Cons.prems have l: "findByID_loop es i (Suc n) = Some k" by simp
    show ?thesis
    proof (cases j)
      case 0
      with False show ?thesis by simp
    next
      case (Suc j')
      with Cons.prems(2) have "j' < k - Suc n" by simp
      from Cons.IH [OF l this] Suc show ?thesis by simp
    qed
  qed
qed

lemma findByID_loop_complete:
  "e \<in> set es \<Longrightarrow> ID e = i \<Longrightarrow> \<exists>k. findByID_loop es i n = Some k"
  by (induction es arbitrary: n) auto

text \<open>\<open>findByID\<close> finds an identifier exactly when the store holds an expense with it, and
  then returns the first position of such an expense.\<close>

lemma findByID_Some:
  "findByID st i = Some k \<Longrightarrow> k < length (Expenses st) \<and> ID (Expenses st ! k) = i"
  using findByID_loop_Some [of "Expenses st" i 0 k] by (simp add: findByID_def)

lemma findByID_first:
  "findByID st i = Some k \<Longrightarrow> j < k \<Longrightarrow> ID (Expenses st ! j) \<noteq> i"
  using findByID_loop_first [of "Expenses st" i 0 k j] by (simp add: findByID_def)

lemma findByID_complete:
  "e \<in> set (Expenses st) \<Longrightarrow> ID e = i \<Longrightarrow> \<exists>k. findByID st i = Some k"
  using findByID_loop_complete [of e "Expenses st" i 0] by (simp add: findByID_def)

lemma findByID_None:
  "findByID st i = None \<Longrightarrow> e \<in> set (Expenses st) \<Longrightarrow> ID e \<noteq> i"
  using findByID_complete [of e st i] by auto

lemma loadStore_Inr:
  "loadStore ev f = Inr st \<Longrightarrow> home_ok ev \<and> NextID st \<noteq> 0 \<and> Budgets st \<noteq> None"
  by (cases f) (auto simp: loadStore_def Let_def split: if_splits)

lemma loadStore_Doc:
  "home_ok ev \<Longrightarrow> readable ev \<Longrightarrow> NextID st \<noteq> 0 \<Longrightarrow> Budgets st \<noteq> None \<Longrightarrow>
   loadStore ev (Doc st) = Inr st"
  by (auto simp: loadStore_def)

lemma save_None:
  "save ev st f = (f', None) \<Longrightarrow> f' = Doc (json_store st) \<and> home_ok ev \<and> writable ev"
  by (auto simp: save_def split: if_splits)

subsection \<open>Trimming\<close>

lemma space_runes_nonempty: "w \<in> set space_runes \<Longrightarrow> w \<noteq> []"
  by (auto simp: space_runes_def)

lemma space_rune_length:
  "w \<in> set space_runes \<Longrightarrow>
     length w = (if (of_char (hd w) :: nat) < 128 then 1 else if hd w = CHR 0xC2 then 2 else 3)"
  by (auto simp: space_runes_def)

lemma is_head_hd: "is_head w s \<Longrightarrow> w \<noteq> [] \<Longrightarrow> hd s = hd w"
  by (cases w; cases s) (auto simp: is_head_def)

lemma is_head_append: "is_head w s \<Longrightarrow> is_head w (s @ r)"
  by (metis append_eq_conv_conj append_take_drop_id is_head_def append.assoc)

lemma is_head_self: "is_head w (w @ s)"
  by (simp add: is_head_def)

lemma leading_space_Some:
  assumes "leading_space s \<noteq> 0"
  shows "\<exists>w \<in> set space_runes. is_head w s \<and> leading_space s = length w"
proof (cases "find (\<lambda>w. is_head w s) space_runes")
  case None
  with assms show ?thesis by (simp add: leading_space_def)
next
  case (Some w)
  then have "w \<in> set space_runes" "is_head w s"
    by (auto simp: find_Some_iff)
  with Some show ?thesis by (auto simp: leading_space_def)
qed

lemma leading_space_zero:
  assumes "leading_space s = 0"
  shows "\<not> list_ex (\<lambda>w. is_head w s) space_runes"
proof (cases "find (\<lambda>w. is_head w s) space_runes")
  case None
  then show ?thesis by (simp add: find_None_iff list_ex_iff)
next
  case (Some w)
  then have "w \<in> set space_runes" by (auto simp: find_Some_iff)
  with Some assms space_runes_nonempty [of w] show ?thesis by (simp add: leading_space_def)
qed

lemma leading_space_head:
  assumes "w \<in> set space_runes"
  shows "leading_space (w @ s) = length w"
proof -
  from assms is_head_self [of w s] have "list_ex (\<lambda>v. is_head v (w @ s)) space_runes"
    by (auto simp: list_ex_iff)
  with leading_space_zero [of "w @ s"] have "leading_space (w @ s) \<noteq> 0" by auto
  from leading_space_Some [OF this] obtain v where
    v: "v \<in> set space_runes" "is_head v (w @ s)" "leading_space (w @ s) = length v" by blast
  from v(1) have "v \<noteq> []" by (rule space_runes_nonempty)
  with v(2) have "hd (w @ s) = hd v" by (rule is_head_hd)
  with space_runes_nonempty [OF assms] have "hd w = hd v" by simp
  with space_rune_length [OF assms] space_rune_length [OF v(1)] v(3) show ?thesis by simp
qed

lemma trailing_space_Some:
  assumes "trailing_space s \<noteq> 0"
  shows "\<exists>w \<in> set space_runes. is_tail w s \<and> trailing_space s = length w"
proof (cases "find (\<lambda>w. is_tail w s) space_runes")
  case None
  with assms show ?thesis by (simp add: trailing_space_def)
next
  case (Some w)
  then have "w \<in> set space_runes" "is_tail w s"
    by (auto simp: find_Some_iff)
  with Some show ?thesis by (auto simp: trailing_space_def)
qed

lemma trailing_space_zero:
  assumes "trailing_space s = 0"
  shows "\<not> list_ex (\<lambda>w. is_tail w s) space_runes"
proof (cases "find (\<lambda>w. is_tail w s) space_runes")
  case None
  then show ?thesis by (simp add: find_None_iff list_ex_iff)
next
  case (Some w)
  then have "w \<in> set space_runes" by (auto simp: find_Some_iff)
  with Some assms space_runes_nonempty [of w] show ?thesis by (simp add: trailing_space_def)
qed

lemma blank_rune: "w \<in> set space_runes \<Longrightarrow> blank w"
  using blank_Cons [OF _ blank_Nil, of w] by simp

lemma blank_append: "blank a \<Longrightarrow> blank b \<Longrightarrow> blank (a @ b)"
proof (induction rule: blank.induct)
  case blank_Nil
  then show ?case by simp
next
  case (blank_Cons w s)
  then have "blank (s @ b)" by simp
  with blank_Cons(1) have "blank (w @ (s @ b))" by (rule blank.blank_Cons)
  then show ?case by simp
qed

lemma TrimLeft_split:
  "\<exists>pre. s = pre @ TrimLeft s \<and> blank pre \<and> \<not> list_ex (\<lambda>w. is_head w (TrimLeft s)) space_runes"
proof (induction s rule: TrimLeft.induct)
  case (1 s)
  show ?case
  proof (cases "s = [] \<or> leading_space s = 0")
    case True
    then have t: "TrimLeft s = s" by (simp add: TrimLeft.simps)
    have "\<not> list_ex (\<lambda>w. is_head w s) space_runes"
    proof (cases "s = []")
      case True
      then show ?thesis
        using space_runes_nonempty by (auto simp: list_ex_iff is_head_def)
    next
      case False
      with True show ?thesis by (simp add: leading_space_zero)
    qed
    with t blank_Nil show ?thesis by (intro exI [of _ "[]"]) simp
  next
    case False
    then have t: "TrimLeft s = TrimLeft (drop (leading_space s) s)"
      by (subst TrimLeft.simps) simp
    from False leading_space_Some [of s] obtain w where
      w: "w \<in> set space_runes" "is_head w s" "leading_space s = length w" by auto
    then have s: "s = w @ drop (leading_space s) s"
      by (metis append_take_drop_id is_head_def)
    from "1.IH" [OF False] obtain pre where
      pre: "drop (leading_space s) s = pre @ TrimLeft s" "blank pre"
        "\<not> list_ex (\<lambda>w. is_head w (TrimLeft s)) space_runes"
      unfolding t [symmetric] by blast
    from s pre(1) have "s = (w @ pre) @ TrimLeft s" by simp
    moreover from w(1) pre(2) have "blank (w @ pre)" by (rule blank_Cons)
    ultimately show ?thesis using pre(3) by blast
  qed
qed

lemma TrimRight_split:
  "\<exists>post. s = TrimRight s @ post \<and> blank post
     \<and> \<not> list_ex (\<lambda>w. is_tail w (TrimRight s)) space_runes"
proof (induction s rule: TrimRight.induct)
  case (1 s)
  show ?case
  proof (cases "s = [] \<or> trailing_space s = 0")
    case True
    then have t: "TrimRight s = s" by (simp add: TrimRight.simps)
    have "\<not> list_ex (\<lambda>w. is_tail w s) space_runes"
    proof (cases "s = []")
      case True
      then show ?thesis
        using space_runes_nonempty by (auto simp: list_ex_iff is_tail_def)
    next
      case False
      with True show ?thesis by (simp add: trailing_space_zero)
    qed
    with t blank_Nil show ?thesis by (intro exI [of _ "[]"]) simp
  next
    case False
    then have t: "TrimRight s = TrimRight (take (length s - trailing_space s) s)"
      by (subst TrimRight.simps) simp
    from False trailing_space_Some [of s] obtain w where
      w: "w \<in> set space_runes" "is_tail w s" "trailing_space s = length w" by auto
    then have s: "s = take (length s - trailing_space s) s @ w"
      by (metis append_take_drop_id is_tail_def)
    from "1.IH" [OF False] obtain post where
      post: "take (length s - trailing_space s) s = TrimRight s @ post" "blank post"
        "\<not> list_ex (\<lambda>w. is_tail w (TrimRight s)) space_runes"
      unfolding t [symmetric] by blast
    from s post(1) have "s = TrimRight s @ (post @ w)" by simp
    moreover from post(2) blank_rune [OF w(1)] have "blank (post @ w)" by (rule blank_append)
    ultimately show ?thesis using post(3) by blast
  qed
qed

text \<open>\<open>TrimSpace\<close> returns the string without its leading and trailing white space.\<close>

lemma TrimSpace_trimmed: "spec_trimmed_of s (TrimSpace s)"
proof -
  from TrimLeft_split [of s] obtain pre where
    pre: "s = pre @ TrimLeft s" "blank pre"
      "\<not> list_ex (\<lambda>w. is_head w (TrimLeft s)) space_runes" by blast
  from TrimRight_split [of "TrimLeft s"] obtain post where
    post: "TrimLeft s = TrimSpace s @ post" "blank post"
      "\<not> list_ex (\<lambda>w. is_tail w (TrimSpace s)) space_runes"
    unfolding TrimSpace_def by blast
  have "\<not> list_ex (\<lambda>w. is_head w (TrimSpace s)) space_runes"
  proof
    assume "list_ex (\<lambda>w. is_head w (TrimSpace s)) space_runes"
    then obtain w where "w \<in> set space_runes" "is_head w (TrimSpace s)"
      by (auto simp: list_ex_iff)
    then have "is_head w (TrimLeft s)"
      using is_head_append [of w "TrimSpace s" post] post(1) by simp
    with \<open>w \<in> set space_runes\<close> pre(3) show False by (auto simp: list_ex_iff)
  qed
  moreover from pre(1) post(1) have "s = pre @ TrimSpace s @ post" by simp
  ultimately show ?thesis using pre(2) post(2,3)
    unfolding spec_trimmed_of_def by blast
qed

lemma TrimLeft_blank: "blank s \<Longrightarrow> TrimLeft s = []"
proof (induction rule: blank.induct)
  case blank_Nil
  show ?case by (simp add: TrimLeft.simps)
next
  case (blank_Cons w s)
  from space_runes_nonempty [OF blank_Cons(1)] leading_space_head [OF blank_Cons(1), of s]
  have "TrimLeft (w @ s) = TrimLeft s"
    by (subst TrimLeft.simps) simp
  with blank_Cons show ?case by simp
qed

lemma TrimSpace_blank: "blank s \<Longrightarrow> TrimSpace s = []"
  by (simp add: TrimSpace_def TrimLeft_blank TrimRight.simps)

subsection \<open>Folding letter case\<close>

lemma of_char_toLower:
  "(of_char (toLower c) :: nat) =
     (if 65 \<le> (of_char c :: nat) \<and> (of_char c :: nat) \<le> 90 then of_char c + 32 else of_char c)"
  by (simp add: toLower_def Let_def)

lemma toLower_same_letter: "(toLower a = toLower b) = spec_same_letter a b"
proof -
  have "(toLower a = toLower b) = ((of_char (toLower a) :: nat) = of_char (toLower b))"
    by simp
  also have "\<dots> = spec_same_letter a b"
  proof -
    have eq: "(a = b) = ((of_char a :: nat) = of_char b)" by simp
    show ?thesis
      unfolding of_char_toLower spec_same_letter_def byte_in_def eq by auto
  qed
  finally show ?thesis .
qed

lemma map_toLower_same: "(map toLower s = map toLower t) = list_all2 spec_same_letter s t"
proof (induction s arbitrary: t)
  case Nil
  show ?case by auto
next
  case (Cons a s)
  show ?case by (cases t) (simp_all add: Cons.IH toLower_same_letter)
qed

text \<open>\<open>EqualFold\<close> compares without regard to letter case.\<close>

lemma EqualFold_spec: "EqualFold ev s t = spec_equal_ignoring_case ev s t"
  by (simp add: EqualFold_def spec_equal_ignoring_case_def map_toLower_same)

subsection \<open>Month keys\<close>

lemma digit_char_val: "isDigit c \<Longrightarrow> digit_char (nat (digit_val c)) = c"
  by (simp add: isDigit_def digit_char_def digit_val_def Let_def nat_diff_distrib)

lemma digit_val_range: "isDigit c \<Longrightarrow> 0 \<le> digit_val c \<and> digit_val c \<le> 9"
  by (auto simp: isDigit_def digit_val_def Let_def)

lemma digits_small: "n < 10 \<Longrightarrow> digits n = [digit_char n]"
  by (subst digits.simps) simp

lemma digits_step: "0 < q \<Longrightarrow> r < 10 \<Longrightarrow> digits (10 * q + r) = digits q @ [digit_char r]"
  by (subst digits.simps) simp

lemma zero_pad_step:
  assumes "r < 10" and "0 < w"
  shows "zero_pad (Suc w) (digits (10 * q + r)) = zero_pad w (digits q) @ [digit_char r]"
proof (cases "q = 0")
  case True
  have "digit_char 0 = CHR ''0''" by code_simp
  moreover from assms(2) have "replicate w (CHR ''0'') = replicate (w - 1) (CHR ''0'') @ [CHR ''0'']"
    by (cases w) (simp_all add: replicate_append_same)
  ultimately show ?thesis using True assms(1) by (simp add: digits_small zero_pad_def)
next
  case False
  with assms(1) show ?thesis by (simp add: digits_step zero_pad_def Suc_diff_le)
qed

lemma zero_pad_one: "n < 10 \<Longrightarrow> zero_pad (Suc 0) (digits n) = [digit_char n]"
  by (simp add: digits_small zero_pad_def)

lemma appendInt_two:
  assumes "a < 10" and "b < 10"
  shows "appendInt 2 (int (10 * a + b)) = [digit_char a, digit_char b]"
proof -
  have "zero_pad (Suc (Suc 0)) (digits (10 * a + b)) = zero_pad (Suc 0) (digits a) @ [digit_char b]"
    using assms(2) by (intro zero_pad_step) simp_all
  with zero_pad_one [OF assms(1)] show ?thesis
    by (simp add: appendInt_def numeral_2_eq_2 del: of_nat_add of_nat_mult)
qed

lemma appendInt_four:
  assumes "a < 10" and "b < 10" and "c < 10" and "d < 10"
  shows "appendInt 4 (int (10 * (10 * (10 * a + b) + c) + d)) =
     [digit_char a, digit_char b, digit_char c, digit_char d]"
proof -
  have 1: "zero_pad (Suc (Suc (Suc (Suc 0)))) (digits (10 * (10 * (10 * a + b) + c) + d)) =
      zero_pad (Suc (Suc (Suc 0))) (digits (10 * (10 * a + b) + c)) @ [digit_char d]"
    using assms(4) by (intro zero_pad_step) simp_all
  have 2: "zero_pad (Suc (Suc (Suc 0))) (digits (10 * (10 * a + b) + c)) =
      zero_pad (Suc (Suc 0)) (digits (10 * a + b)) @ [digit_char c]"
    using assms(3) by (intro zero_pad_step) simp_all
  have 3: "zero_pad (Suc (Suc 0)) (digits (10 * a + b)) = zero_pad (Suc 0) (digits a) @ [digit_char b]"
    using assms(2) by (intro zero_pad_step) simp_all
  have n: "(4::nat) = Suc (Suc (Suc (Suc 0)))" by simp
  have "zero_pad 4 (digits (10 * (10 * (10 * a + b) + c) + d)) =
      [digit_char a, digit_char b, digit_char c, digit_char d]"
    unfolding n 1 2 3 zero_pad_one [OF assms(1)] by simp
  then show ?thesis by (simp add: appendInt_def del: of_nat_add of_nat_mult)
qed

lemma time_Parse_shape:
  assumes "time_Parse s = Some (y, m, d)"
  obtains y1 y2 y3 y4 m1 m2 d1 d2 where
    "s = [y1, y2, y3, y4, CHR ''-'', m1, m2, CHR ''-'', d1, d2]"
    "isDigit y1" "isDigit y2" "isDigit y3" "isDigit y4" "isDigit m1" "isDigit m2"
    "y = 1000 * digit_val y1 + 100 * digit_val y2 + 10 * digit_val y3 + digit_val y4"
    "m = 10 * digit_val m1 + digit_val m2"
  using assms
  by (cases s rule: time_Parse.cases)
     (auto simp: time_Parse.simps Let_def split: if_splits)

text \<open>The month key that the program computes is the first seven characters of the date.\<close>

lemma monthKeyFromDate_spec: "monthKeyFromDate s = spec_month_key s"
proof (cases "time_Parse s")
  case None
  then show ?thesis by (simp add: monthKeyFromDate_def spec_month_key_def)
next
  case (Some r)
  obtain y m d where r: "r = (y, m, d)" by (cases r)
  from Some r have p: "time_Parse s = Some (y, m, d)" by simp
  from time_Parse_shape [OF p] obtain y1 y2 y3 y4 m1 m2 d1 d2 where
    s: "s = [y1, y2, y3, y4, CHR ''-'', m1, m2, CHR ''-'', d1, d2]"
    and dg: "isDigit y1" "isDigit y2" "isDigit y3" "isDigit y4" "isDigit m1" "isDigit m2"
    and y: "y = 1000 * digit_val y1 + 100 * digit_val y2 + 10 * digit_val y3 + digit_val y4"
    and m: "m = 10 * digit_val m1 + digit_val m2"
    by blast
  define a b c e g h where "a = nat (digit_val y1)" and "b = nat (digit_val y2)"
    and "c = nat (digit_val y3)" and "e = nat (digit_val y4)"
    and "g = nat (digit_val m1)" and "h = nat (digit_val m2)"
  from dg digit_val_range have lt: "a < 10" "b < 10" "c < 10" "e < 10" "g < 10" "h < 10"
    unfolding a_def b_def c_def e_def g_def h_def by fastforce+
  from dg digit_val_range have yy: "y = int (10 * (10 * (10 * a + b) + c) + e)"
    and mm: "m = int (10 * g + h)"
    unfolding y m a_def b_def c_def e_def g_def h_def by fastforce+
  from dg have ch: "digit_char a = y1" "digit_char b = y2" "digit_char c = y3"
    "digit_char e = y4" "digit_char g = m1" "digit_char h = m2"
    unfolding a_def b_def c_def e_def g_def h_def by (simp_all add: digit_char_val)
  have "appendInt 4 y @ ''-'' @ appendInt 2 m = [y1, y2, y3, y4, CHR ''-'', m1, m2]"
    unfolding yy mm appendInt_four [OF lt(1-4)] appendInt_two [OF lt(5,6)] ch by simp
  with p show ?thesis by (simp add: monthKeyFromDate_def spec_month_key_def s)
qed

subsection \<open>Sums\<close>

lemma sumForMonth_loop_foldl:
  "sumForMonth_loop ev key [] es acc =
     foldl (float_add ev) acc
       (map Amount (filter (\<lambda>e. spec_month_key (Date e) = Some key) es))"
proof (induction es arbitrary: acc)
  case Nil
  show ?case by simp
next
  case (Cons e es)
  show ?case
    by (cases "spec_month_key (Date e)") (simp_all add: Cons.IH monthKeyFromDate_spec)
qed

lemma sumForMonth_total: "sumForMonth ev st mk [] = spec_month_total ev st mk"
  by (simp add: sumForMonth_def spec_month_total_def sumForMonth_loop_foldl)

lemma warn_iff:
  "(warnIfBudgetExceeded ev st date [] \<noteq> None) = spec_budget_exceeded ev st date"
  by (auto simp: warnIfBudgetExceeded_def spec_budget_exceeded_def sumForMonth_total Let_def
      monthKeyFromDate_spec split: option.splits)

lemma warn_Some:
  "warnIfBudgetExceeded ev st date [] = Some (mk, b, t) \<Longrightarrow>
     spec_month_key date = Some mk \<and> map_get (Budgets st) mk = Some b
     \<and> t = spec_month_total ev st mk"
  by (auto simp: warnIfBudgetExceeded_def sumForMonth_total Let_def monthKeyFromDate_spec
      split: option.splits if_splits)

subsection \<open>Encoding and decoding\<close>

lemma json_string_valid: "utf8_valid s \<Longrightarrow> json_string s = s"
proof (induction s rule: utf8_valid.induct)
  case (1 s)
  show ?case
  proof (cases "s = []")
    case True
    then show ?thesis by (simp add: json_string.simps)
  next
    case False
    with "1.prems" have w: "utf8_width s \<noteq> 0" and v: "utf8_valid (drop (utf8_width s) s)"
      by (subst (asm) utf8_valid.simps, simp split: if_splits)+
    from "1.IH" [OF False w v] False w show ?thesis
      by (subst json_string.simps) simp
  qed
qed

lemma json_expense_valid:
  "utf8_valid (Date e) \<Longrightarrow> utf8_valid (Description e) \<Longrightarrow> utf8_valid (Category e) \<Longrightarrow>
   json_expense e = e"
  by (simp add: json_expense_def json_string_valid)

lemma json_budgets_valid:
  assumes "\<forall>k \<in> dom m. utf8_valid k"
  shows "json_budgets m = m"
proof
  fix k
  have js: "json_string k0 = k0" if "k0 \<in> dom m" for k0
    using assms that by (simp add: json_string_valid)
  have eq: "{k0 \<in> dom m. json_string k0 = k} = (if k \<in> dom m then {k} else {})"
    using js by (auto split: if_splits) (metis domI)+
  show "json_budgets m k = m k"
    unfolding json_budgets_def eq by (auto simp: domIff)
qed

text \<open>A store with valid UTF-8 strings comes back from the encoder and decoder as it was.\<close>

lemma json_store_valid: "utf8_store st \<Longrightarrow> json_store st = st"
proof -
  assume u: "utf8_store st"
  then have "map json_expense (Expenses st) = Expenses st"
    by (intro map_idI) (simp add: utf8_store_def json_expense_valid)
  moreover have "map_option json_budgets (Budgets st) = Budgets st"
  proof (cases "Budgets st")
    case None
    then show ?thesis by simp
  next
    case (Some m)
    with u have "\<forall>k \<in> dom m. utf8_valid k" by (simp add: utf8_store_def)
    with Some show ?thesis by (simp add: json_budgets_valid)
  qed
  ultimately show ?thesis by (simp add: json_store_def)
qed

lemma json_store_fields:
  "NextID (json_store st) = NextID st"
  "length (Expenses (json_store st)) = length (Expenses st)"
  "map ID (Expenses (json_store st)) = map ID (Expenses st)"
  "(Budgets (json_store st) = None) = (Budgets st = None)"
  by (simp_all add: json_store_def json_expense_def comp_def)

lemma json_budgets_value: "json_budgets m k = Some v \<Longrightarrow> \<exists>k0. m k0 = Some v"
  by (auto simp: json_budgets_def split: if_splits)

subsection \<open>ASCII text is valid UTF-8\<close>

lemma utf8_width_ascii: "(of_char c :: nat) < 128 \<Longrightarrow> utf8_width (c # cs) = 1"
  by (simp add: utf8_width.simps byte_in_def)

lemma utf8_valid_ascii: "isASCII s \<Longrightarrow> utf8_valid s"
proof (induction s)
  case Nil
  show ?case by (simp add: utf8_valid.simps)
next
  case (Cons c s)
  then have "(of_char c :: nat) < 128" and "utf8_valid s" by (simp_all add: isASCII_def)
  then show ?case by (subst utf8_valid.simps) (simp add: utf8_width_ascii)
qed

lemma isASCII_append: "isASCII (s @ t) = (isASCII s \<and> isASCII t)"
  by (simp add: isASCII_def)

lemma digit_char_ascii: "n < 10 \<Longrightarrow> (of_char (digit_char n) :: nat) < 128"
  by (simp add: digit_char_def)

lemma isASCII_digits: "isASCII (digits n)"
proof (induction n rule: digits.induct)
  case (1 n)
  show ?case
  proof (cases "n < 10")
    case True
    then show ?thesis by (subst digits.simps) (simp add: isASCII_def digit_char_ascii)
  next
    case False
    with 1 have "isASCII (digits (n div 10))" by simp
    with False show ?thesis
      by (subst digits.simps) (simp add: isASCII_append, simp add: isASCII_def digit_char_ascii)
  qed
qed

lemma isASCII_Cons: "isASCII (c # s) = ((of_char c :: nat) < 128 \<and> isASCII s)"
  by (simp add: isASCII_def)

lemma isASCII_zeros: "isASCII (replicate n (CHR ''0''))"
  by (induction n) (simp_all add: isASCII_Cons, simp add: isASCII_def)

lemma isASCII_zero_pad: "isASCII s \<Longrightarrow> isASCII (zero_pad w s)"
  by (simp add: zero_pad_def isASCII_append isASCII_zeros)

lemma isASCII_Sprintf_0d: "isASCII (Sprintf_0d w n)"
  by (simp add: Sprintf_0d_def isASCII_zero_pad isASCII_digits isASCII_Cons)

lemma budget_key_ascii: "isASCII (budget_key ev fl)"
  by (simp add: budget_key_def isASCII_append isASCII_Sprintf_0d isASCII_Cons)

lemma budget_key_valid: "utf8_valid (budget_key ev fl)"
  by (rule utf8_valid_ascii) (rule budget_key_ascii)

subsection \<open>What the encoder leaves of a store\<close>

lemma utf8_store_set_budget:
  assumes "utf8_store st" and "utf8_valid k"
  shows "utf8_store (st\<lparr>Budgets := Some (m(k \<mapsto> v))\<rparr>) = (\<forall>k0 \<in> dom m. k0 \<noteq> k \<longrightarrow> utf8_valid k0)"
  using assms by (auto simp: utf8_store_def)

lemma ids_below_json: "ids_below (json_store st) = ids_below st"
proof -
  have "ids_below s = (\<forall>i \<in> set (map ID (Expenses s)). i < NextID s)" for s
    by (simp add: ids_below_def)
  then show ?thesis by (simp only: json_store_fields)
qed

lemma budgets_nonneg_json: "budgets_nonneg st \<Longrightarrow> budgets_nonneg (json_store st)"
proof -
  assume a: "budgets_nonneg st"
  have "0 \<le> v" if "map_get (Budgets (json_store st)) k = Some v" for k v
  proof -
    from that obtain m where m: "Budgets st = Some m" and "json_budgets m k = Some v"
      by (cases "Budgets st") (auto simp: json_store_def map_get_def)
    then obtain k0 where "m k0 = Some v" using json_budgets_value by blast
    with m a show ?thesis by (auto simp: budgets_nonneg_def map_get_def)
  qed
  then show ?thesis by (simp add: budgets_nonneg_def)
qed

subsection \<open>What the encoder writes is valid UTF-8\<close>

lemma utf8_width_1: "byte_in 0x00 0x7F c \<Longrightarrow> utf8_width (c # cs) = 1"
  by (simp add: utf8_width.simps)

lemma utf8_width_2:
  "\<not> byte_in 0x00 0x7F c \<Longrightarrow> byte_in 0xC2 0xDF c \<Longrightarrow>
   utf8_width (c # cs) = (case cs of c1 # r1 \<Rightarrow> if byte_in 0x80 0xBF c1 then 2 else 0 | [] \<Rightarrow> 0)"
  by (simp add: utf8_width.simps)

lemma utf8_width_3:
  "\<not> byte_in 0x00 0x7F c \<Longrightarrow> \<not> byte_in 0xC2 0xDF c \<Longrightarrow> byte_in 0xE0 0xEF c \<Longrightarrow>
   utf8_width (c # cs) =
     (case cs of
        c1 # c2 # r2 \<Rightarrow>
          if byte_in (if byte_in 0xE0 0xE0 c then 0xA0 else 0x80)
                     (if byte_in 0xED 0xED c then 0x9F else 0xBF) c1
             \<and> byte_in 0x80 0xBF c2
          then 3 else 0
      | _ \<Rightarrow> 0)"
  by (simp only: utf8_width.simps if_True if_False)

lemma utf8_width_4:
  "\<not> byte_in 0x00 0x7F c \<Longrightarrow> \<not> byte_in 0xC2 0xDF c \<Longrightarrow> \<not> byte_in 0xE0 0xEF c \<Longrightarrow>
   byte_in 0xF0 0xF4 c \<Longrightarrow>
   utf8_width (c # cs) =
     (case cs of
        c1 # c2 # c3 # r3 \<Rightarrow>
          if byte_in (if byte_in 0xF0 0xF0 c then 0x90 else 0x80)
                     (if byte_in 0xF4 0xF4 c then 0x8F else 0xBF) c1
             \<and> byte_in 0x80 0xBF c2 \<and> byte_in 0x80 0xBF c3
          then 4 else 0
      | _ \<Rightarrow> 0)"
  by (simp only: utf8_width.simps if_True if_False)

lemma utf8_width_0:
  "\<not> byte_in 0x00 0x7F c \<Longrightarrow> \<not> byte_in 0xC2 0xDF c \<Longrightarrow> \<not> byte_in 0xE0 0xEF c \<Longrightarrow>
   \<not> byte_in 0xF0 0xF4 c \<Longrightarrow> utf8_width (c # cs) = 0"
  by (simp only: utf8_width.simps if_True if_False)

lemma utf8_width_prefix:
  assumes "utf8_width s \<noteq> 0"
  shows "length s \<ge> utf8_width s \<and> utf8_width (take (utf8_width s) s @ t) = utf8_width s"
proof (cases s)
  case Nil
  with assms show ?thesis by (simp add: utf8_width.simps)
next
  case (Cons c cs)
  show ?thesis
  proof (cases "byte_in 0x00 0x7F c")
    case True
    then show ?thesis by (simp add: Cons utf8_width_1)
  next
    case n1: False
    show ?thesis
    proof (cases "byte_in 0xC2 0xDF c")
      case True
      from assms obtain c1 r1 where cs: "cs = c1 # r1" and c1: "byte_in 0x80 0xBF c1"
        unfolding Cons utf8_width_2 [OF n1 True] by (cases cs) (simp_all split: if_splits)
      have w: "utf8_width s = 2" unfolding Cons utf8_width_2 [OF n1 True] cs using c1 by simp
      show ?thesis unfolding w unfolding Cons cs using c1 by (simp add: utf8_width_2 [OF n1 True])
    next
      case n2: False
      show ?thesis
      proof (cases "byte_in 0xE0 0xEF c")
        case True
        note eq = utf8_width_3 [OF n1 n2 True]
        from assms obtain c1 c2 r2 where cs: "cs = c1 # c2 # r2"
          unfolding Cons eq by (cases cs; cases "tl cs") (simp_all split: if_splits)
        from assms have c: "byte_in (if byte_in 0xE0 0xE0 c then 0xA0 else 0x80)
                     (if byte_in 0xED 0xED c then 0x9F else 0xBF) c1 \<and> byte_in 0x80 0xBF c2"
          unfolding Cons eq cs by (simp split: if_splits)
        have w: "utf8_width s = 3" unfolding Cons eq cs using c by simp
        have "utf8_width (c # c1 # c2 # t) = 3" unfolding eq using c by simp
        then show ?thesis unfolding w unfolding Cons cs by simp
      next
        case n3: False
        show ?thesis
        proof (cases "byte_in 0xF0 0xF4 c")
          case True
          note eq = utf8_width_4 [OF n1 n2 n3 True]
          from assms obtain c1 c2 c3 r3 where cs: "cs = c1 # c2 # c3 # r3"
            unfolding Cons eq
            by (cases cs; cases "tl cs"; cases "tl (tl cs)") (simp_all split: if_splits)
          from assms have c: "byte_in (if byte_in 0xF0 0xF0 c then 0x90 else 0x80)
                     (if byte_in 0xF4 0xF4 c then 0x8F else 0xBF) c1
             \<and> byte_in 0x80 0xBF c2 \<and> byte_in 0x80 0xBF c3"
            unfolding Cons eq cs by (simp split: if_splits)
          have w: "utf8_width s = 4" unfolding Cons eq cs using c by simp
          have "utf8_width (c # c1 # c2 # c3 # t) = 4" unfolding eq using c by simp
          then show ?thesis unfolding w unfolding Cons cs by simp
        next
          case False
          with assms n1 n2 n3 show ?thesis by (simp add: Cons utf8_width_0)
        qed
      qed
    qed
  qed
qed

lemma utf8_valid_step:
  assumes "utf8_width s \<noteq> 0"
  shows "utf8_valid (take (utf8_width s) s @ t) = utf8_valid t"
proof -
  let ?p = "take (utf8_width s) s"
  from utf8_width_prefix [OF assms, of t]
  have l: "length ?p = utf8_width s" and w: "utf8_width (?p @ t) = utf8_width s" by simp_all
  from assms l have ne: "?p @ t \<noteq> []" by auto
  have "utf8_valid (?p @ t) = utf8_valid (drop (utf8_width (?p @ t)) (?p @ t))"
    by (subst utf8_valid.simps) (simp only: ne w assms if_False)
  also have "\<dots> = utf8_valid t"
    unfolding w using l by simp
  finally show ?thesis .
qed

lemma utf8_valid_replacement: "utf8_valid (replacement_char @ t) = utf8_valid t"
proof -
  have w: "utf8_width (replacement_char @ t) = 3"
    by (simp add: replacement_char_def utf8_width.simps byte_in_def)
  show ?thesis
    by (subst utf8_valid.simps) (simp add: w, simp add: replacement_char_def)
qed

lemma utf8_valid_json_string: "utf8_valid (json_string s)"
proof (induction s rule: json_string.induct)
  case (1 s)
  show ?case
  proof (cases "s = []")
    case True
    then show ?thesis by (simp add: json_string.simps utf8_valid.simps)
  next
    case ne: False
    show ?thesis
    proof (cases "utf8_width s = 0")
      case True
      with ne "1.IH"(1) show ?thesis
        by (subst json_string.simps) (simp add: utf8_valid_replacement)
    next
      case False
      with ne "1.IH"(2) show ?thesis
        by (subst json_string.simps) (simp add: utf8_valid_step)
    qed
  qed
qed

lemma json_string_fixed: "(json_string s = s) = utf8_valid s"
  using utf8_valid_json_string [of s] json_string_valid [of s] by auto

lemma json_expense_fixed:
  "(json_expense e = e) =
     (utf8_valid (Date e) \<and> utf8_valid (Description e) \<and> utf8_valid (Category e))"
proof
  assume a: "json_expense e = e"
  have "Date (json_expense e) = json_string (Date e)"
    "Description (json_expense e) = json_string (Description e)"
    "Category (json_expense e) = json_string (Category e)"
    by (simp_all add: json_expense_def)
  with a have "json_string (Date e) = Date e" "json_string (Description e) = Description e"
    "json_string (Category e) = Category e"
    by simp_all
  then show "utf8_valid (Date e) \<and> utf8_valid (Description e) \<and> utf8_valid (Category e)"
    by (simp add: json_string_fixed)
next
  assume "utf8_valid (Date e) \<and> utf8_valid (Description e) \<and> utf8_valid (Category e)"
  then show "json_expense e = e" by (simp add: json_expense_valid)
qed

lemma json_budgets_dom: "k \<in> dom (json_budgets m) \<Longrightarrow> \<exists>k0. k = json_string k0"
  by (auto simp: json_budgets_def dom_def split: if_splits)

lemma json_budgets_fixed: "(json_budgets m = m) = (\<forall>k \<in> dom m. utf8_valid k)"
proof
  assume a: "json_budgets m = m"
  show "\<forall>k \<in> dom m. utf8_valid k"
  proof
    fix k assume "k \<in> dom m"
    with a have "k \<in> dom (json_budgets m)" by simp
    from json_budgets_dom [OF this] show "utf8_valid k" by (auto simp: utf8_valid_json_string)
  qed
next
  assume "\<forall>k \<in> dom m. utf8_valid k"
  then show "json_budgets m = m" by (rule json_budgets_valid)
qed

text \<open>The stores that come back from the encoder and decoder as they were are those with
  valid UTF-8 strings.\<close>

lemma json_store_fixed: "(json_store st = st) = utf8_store st"
proof
  assume a: "json_store st = st"
  have e: "map json_expense (Expenses st) = Expenses st"
    using arg_cong [OF a, of Expenses] by (simp add: json_store_def)
  have b: "map_option json_budgets (Budgets st) = Budgets st"
    using arg_cong [OF a, of Budgets] by (simp add: json_store_def)
  have "json_expense x = x" if "x \<in> set (Expenses st)" for x
  proof -
    have "map json_expense (Expenses st) = map (\<lambda>x. x) (Expenses st)" using e by simp
    with that show ?thesis unfolding map_eq_conv by blast
  qed
  moreover have "utf8_valid k" if "Budgets st = Some m" "k \<in> dom m" for m k
  proof -
    from b that(1) have "json_budgets m = m" by simp
    with that(2) show ?thesis by (simp add: json_budgets_fixed)
  qed
  ultimately show "utf8_store st" by (auto simp: utf8_store_def json_expense_fixed)
next
  assume "utf8_store st"
  then show "json_store st = st" by (rule json_store_valid)
qed

lemma utf8_store_json: "utf8_store (json_store st)"
proof -
  have "json_string (json_string s) = json_string s" for s
    by (simp add: json_string_fixed utf8_valid_json_string)
  have e: "utf8_valid (Date e) \<and> utf8_valid (Description e) \<and> utf8_valid (Category e)"
    if "e \<in> set (Expenses (json_store st))" for e
    using that by (auto simp: json_store_def json_expense_def utf8_valid_json_string)
  have b: "utf8_valid k" if "Budgets (json_store st) = Some m" "k \<in> dom m" for m k
  proof -
    from that(1) obtain m0 where "m = json_budgets m0"
      by (cases "Budgets st") (auto simp: json_store_def)
    with that(2) json_budgets_dom [of k m0] show ?thesis by (auto simp: utf8_valid_json_string)
  qed
  from e b show ?thesis unfolding utf8_store_def by blast
qed

subsection \<open>What a successful add does\<close>

lemma cmdAdd_ok:
  assumes "loadStore ev f = Inr st"
    and "parseDateOrToday ev (flagval [] (a_date fl)) = Inr d"
    and "TrimSpace (flagval [] (a_description fl)) \<noteq> []"
    and "0 < flagval 0 (a_amount fl)"
    and "writable ev"
  shows "cmdAdd ev fl f =
     (Doc (json_store (store_after_add ev fl st d)),
      Inr (NextID st, warnIfBudgetExceeded ev (store_after_add ev fl st d) d []))"
  using assms loadStore_Inr [OF assms(1)]
  by (simp add: cmdAdd_def Let_def save_def store_after_add_def added_expense_def)

lemma cmdAdd_Inr:
  assumes "cmdAdd ev fl f = (f', Inr (i, w))"
  shows "\<exists>st d. loadStore ev f = Inr st
     \<and> parseDateOrToday ev (flagval [] (a_date fl)) = Inr d
     \<and> TrimSpace (flagval [] (a_description fl)) \<noteq> []
     \<and> 0 < flagval 0 (a_amount fl)
     \<and> writable ev
     \<and> i = NextID st
     \<and> f' = Doc (json_store (store_after_add ev fl st d))
     \<and> w = warnIfBudgetExceeded ev (store_after_add ev fl st d) d []"
proof -
  let ?desc = "TrimSpace (flagval [] (a_description fl))"
  let ?amount = "flagval 0 (a_amount fl)"
  have desc: "?desc \<noteq> []"
  proof
    assume "?desc = []"
    then have "cmdAdd ev fl f = (f, Inl ErrDescriptionRequired)" by (simp add: cmdAdd_def)
    with assms show False by simp
  qed
  have amount: "0 < ?amount"
  proof (rule ccontr)
    assume "\<not> 0 < ?amount"
    with desc have "cmdAdd ev fl f = (f, Inl ErrAmountNotPositive)" by (simp add: cmdAdd_def)
    with assms show False by simp
  qed
  obtain d where d: "parseDateOrToday ev (flagval [] (a_date fl)) = Inr d"
  proof (cases "parseDateOrToday ev (flagval [] (a_date fl))")
    case (Inl err)
    with desc amount have "cmdAdd ev fl f = (f, Inl err)" by (simp add: cmdAdd_def)
    with assms show ?thesis by simp
  next
    case (Inr d)
    with that show ?thesis by simp
  qed
  obtain st where st: "loadStore ev f = Inr st"
  proof (cases "loadStore ev f")
    case (Inl err)
    with desc amount d have "cmdAdd ev fl f = (f, Inl err)" by (simp add: cmdAdd_def)
    with assms show ?thesis by simp
  next
    case (Inr st)
    with that show ?thesis by simp
  qed
  have w: "writable ev"
  proof (rule ccontr)
    assume "\<not> writable ev"
    with desc amount d st loadStore_Inr [OF st]
    have "cmdAdd ev fl f = (f, Inl ErrSave)" by (simp add: cmdAdd_def save_def Let_def)
    with assms show False by simp
  qed
  from cmdAdd_ok [OF st d desc amount w] assms st d desc amount w
  show ?thesis by simp
qed

lemma parseDateOrToday_Inr:
  "parseDateOrToday ev s = Inr d \<Longrightarrow>
     (TrimSpace s = [] \<and> d = today ev) \<or> (TrimSpace s \<noteq> [] \<and> d = s \<and> time_Parse s \<noteq> None)"
  by (auto simp: parseDateOrToday_def split: if_splits option.splits)

subsection \<open>What each command leaves in the data file\<close>

lemma loadStore_stored: "loadStore ev f = Inr st \<Longrightarrow> stored f = Some st"
  by (cases f) (auto simp: loadStore_def stored_def Let_def split: if_splits option.splits)

lemma stored_Doc_normal:
  "NextID st \<noteq> 0 \<Longrightarrow> Budgets st \<noteq> None \<Longrightarrow> stored (Doc st) = Some st"
  by (auto simp: stored_def)

lemma stored_Doc_json:
  "NextID st \<noteq> 0 \<Longrightarrow> Budgets st \<noteq> None \<Longrightarrow> stored (Doc (json_store st)) = Some (json_store st)"
  by (rule stored_Doc_normal) (simp_all add: json_store_fields)

lemma update_fields_ID: "update_fields ev fl e = (e', r) \<Longrightarrow> ID e' = ID e"
  by (auto simp: update_fields_def Let_def split: if_splits option.splits)

lemma cmdAdd_file:
  "fst (cmdAdd ev fl f) = f
   \<or> (\<exists>st d. loadStore ev f = Inr st
         \<and> fst (cmdAdd ev fl f) = Doc (json_store (store_after_add ev fl st d)))"
proof (cases "cmdAdd ev fl f")
  case (Pair f' r)
  show ?thesis
  proof (cases r)
    case (Inl err)
    with Pair have "f' = f"
      by (auto simp: cmdAdd_def Let_def save_def split: if_splits sum.splits)
    with Pair show ?thesis by simp
  next
    case (Inr iw)
    with Pair cmdAdd_Inr [of ev fl f f' "fst iw" "snd iw"] show ?thesis by auto
  qed
qed

lemma cmdUpdate_file:
  "fst (cmdUpdate ev fl f) = f
   \<or> (\<exists>st k e'. loadStore ev f = Inr st \<and> k < length (Expenses st)
         \<and> ID e' = ID (Expenses st ! k)
         \<and> fst (cmdUpdate ev fl f) = Doc (json_store (st\<lparr>Expenses := (Expenses st)[k := e']\<rparr>)))"
proof (cases "0 < flagval 0 (u_id fl)")
  case False
  then show ?thesis by (simp add: cmdUpdate_def)
next
  case pos: True
  show ?thesis
  proof (cases "loadStore ev f")
    case (Inl err)
    then show ?thesis by (simp add: cmdUpdate_def Let_def)
  next
    case (Inr st)
    show ?thesis
    proof (cases "findByID st (flagval 0 (u_id fl))")
      case None
      with Inr show ?thesis by (simp add: cmdUpdate_def Let_def)
    next
      case (Some k)
      from findByID_Some [OF Some] have k: "k < length (Expenses st)" by simp
      obtain e' r where uf: "update_fields ev fl (Expenses st ! k) = (e', r)"
        by (cases "update_fields ev fl (Expenses st ! k)")
      show ?thesis
      proof (cases r)
        case None
        with pos Inr Some uf have
          "fst (cmdUpdate ev fl f) = f
           \<or> fst (cmdUpdate ev fl f) = Doc (json_store (st\<lparr>Expenses := (Expenses st)[k := e']\<rparr>))"
          by (simp add: cmdUpdate_def Let_def save_def)
        with Inr k update_fields_ID [OF uf] show ?thesis by blast
      next
        case (Some err)
        with pos Inr \<open>findByID st (flagval 0 (u_id fl)) = Some k\<close> uf
        show ?thesis by (simp add: cmdUpdate_def Let_def)
      qed
    qed
  qed
qed

lemma cmdDelete_file:
  "fst (cmdDelete ev fl f) = f
   \<or> (\<exists>st k. loadStore ev f = Inr st \<and> k < length (Expenses st)
         \<and> fst (cmdDelete ev fl f) =
             Doc (json_store (st\<lparr>Expenses := take k (Expenses st) @ drop (k + 1) (Expenses st)\<rparr>)))"
proof (cases "0 < flagval 0 (d_id fl)")
  case False
  then show ?thesis by (simp add: cmdDelete_def)
next
  case pos: True
  show ?thesis
  proof (cases "loadStore ev f")
    case (Inl err)
    then show ?thesis by (simp add: cmdDelete_def Let_def)
  next
    case (Inr st)
    show ?thesis
    proof (cases "findByID st (flagval 0 (d_id fl))")
      case None
      with Inr show ?thesis by (simp add: cmdDelete_def Let_def)
    next
      case (Some k)
      from findByID_Some [OF Some] have k: "k < length (Expenses st)" by simp
      from pos Inr Some have
        "fst (cmdDelete ev fl f) = f
         \<or> fst (cmdDelete ev fl f) =
             Doc (json_store (st\<lparr>Expenses := take k (Expenses st) @ drop (k + 1) (Expenses st)\<rparr>))"
        by (simp add: cmdDelete_def Let_def save_def)
      with Inr k show ?thesis by blast
    qed
  qed
qed

lemma cmdBudget_set:
  assumes "loadStore ev f = Inr st" and "Budgets st = Some m"
    and "0 \<le> flagval (- 1) (b_set fl)"
    and "1 \<le> budget_month ev fl" and "budget_month ev fl \<le> 12"
  shows "cmdBudget ev fl f =
     (if writable ev
      then (Doc (json_store (st\<lparr>Budgets := Some (m(budget_key ev fl \<mapsto> flagval (- 1) (b_set fl)))\<rparr>)),
            Inr (BudgetSet (budget_key ev fl) (flagval (- 1) (b_set fl))))
      else (f, Inl ErrSave))"
  using assms loadStore_Inr [OF assms(1)]
  by (simp add: cmdBudget_def Let_def save_def budget_key_def budget_month_def budget_year_def)

lemma cmdBudget_file:
  "fst (cmdBudget ev fl f) = f
   \<or> (\<exists>st m mk v. loadStore ev f = Inr st \<and> Budgets st = Some m \<and> 0 \<le> v
         \<and> fst (cmdBudget ev fl f) = Doc (json_store (st\<lparr>Budgets := Some (m(mk \<mapsto> v))\<rparr>)))"
proof (cases "loadStore ev f")
  case (Inl err)
  then show ?thesis by (simp add: cmdBudget_def Let_def)
next
  case (Inr st)
  from loadStore_Inr [OF Inr] obtain m where m: "Budgets st = Some m" by auto
  show ?thesis
  proof (cases "1 \<le> budget_month ev fl \<and> budget_month ev fl \<le> 12")
    case False
    then show ?thesis by (auto simp: cmdBudget_def Let_def budget_month_def)
  next
    case month: True
    show ?thesis
    proof (cases "0 \<le> flagval (- 1) (b_set fl)")
      case False
      with Inr show ?thesis
        by (simp add: cmdBudget_def Let_def split: option.splits)
    next
      case True
      from month have "1 \<le> budget_month ev fl" "budget_month ev fl \<le> 12" by simp_all
      from cmdBudget_set [OF Inr m True this] Inr m True show ?thesis
        by (cases "writable ev") auto
    qed
  qed
qed

text \<open>A command leaves the file as it was, or writes the store it loaded after one of four
  changes: an expense appended under the next identifier, an expense replaced by one with
  the same identifier, an expense removed, a budget that is not negative set.\<close>

lemma exec_file:
  "exec ev c f = f
   \<or> (\<exists>st. loadStore ev f = Inr st
        \<and> ((\<exists>fl d. exec ev c f = Doc (json_store (store_after_add ev fl st d)))
           \<or> (\<exists>k e'. k < length (Expenses st) \<and> ID e' = ID (Expenses st ! k)
                  \<and> exec ev c f = Doc (json_store (st\<lparr>Expenses := (Expenses st)[k := e']\<rparr>)))
           \<or> (\<exists>k. k < length (Expenses st)
                  \<and> exec ev c f =
                      Doc (json_store (st\<lparr>Expenses := take k (Expenses st) @ drop (k + 1) (Expenses st)\<rparr>)))
           \<or> (\<exists>m mk v. Budgets st = Some m \<and> 0 \<le> v
                  \<and> exec ev c f = Doc (json_store (st\<lparr>Budgets := Some (m(mk \<mapsto> v))\<rparr>)))))"
proof (cases c)
  case (Add fl)
  from cmdAdd_file [of ev fl f] show ?thesis unfolding Add exec.simps by blast
next
  case (Update fl)
  from cmdUpdate_file [of ev fl f] show ?thesis unfolding Update exec.simps by blast
next
  case (Delete fl)
  from cmdDelete_file [of ev fl f] show ?thesis unfolding Delete exec.simps by blast
next
  case (Budget fl)
  from cmdBudget_file [of ev fl f] show ?thesis unfolding Budget exec.simps by blast
qed simp_all

lemma stored_exec_cases:
  assumes "stored f = Some st"
  obtains (same) "exec ev c f = f"
    | (add) fl d where "loadStore ev f = Inr st"
        "exec ev c f = Doc (json_store (store_after_add ev fl st d))"
    | (upd) k e' where "loadStore ev f = Inr st" "k < length (Expenses st)"
        "ID e' = ID (Expenses st ! k)"
        "exec ev c f = Doc (json_store (st\<lparr>Expenses := (Expenses st)[k := e']\<rparr>))"
    | (del) k where "loadStore ev f = Inr st"
        "exec ev c f = Doc (json_store (st\<lparr>Expenses := take k (Expenses st) @ drop (k + 1) (Expenses st)\<rparr>))"
    | (bud) m mk v where "loadStore ev f = Inr st" "Budgets st = Some m" "0 \<le> v"
        "exec ev c f = Doc (json_store (st\<lparr>Budgets := Some (m(mk \<mapsto> v))\<rparr>))"
proof -
  have A: "\<And>st0. loadStore ev f = Inr st0 \<Longrightarrow> st0 = st"
    using assms loadStore_stored [of ev f] by simp
  from exec_file [of ev c f] show ?thesis
  proof (elim disjE exE conjE)
    assume "exec ev c f = f" then show ?thesis by (rule same)
  next
    fix st0 fl d assume "loadStore ev f = Inr st0"
      "exec ev c f = Doc (json_store (store_after_add ev fl st0 d))"
    with A [of st0] show ?thesis by (intro add [where fl = fl and d = d]) simp_all
  next
    fix st0 k e' assume "loadStore ev f = Inr st0" "k < length (Expenses st0)"
      "ID e' = ID (Expenses st0 ! k)"
      "exec ev c f = Doc (json_store (st0\<lparr>Expenses := (Expenses st0)[k := e']\<rparr>))"
    with A [of st0] show ?thesis by (intro upd [where k = k and e' = e']) simp_all
  next
    fix st0 k assume "loadStore ev f = Inr st0" "k < length (Expenses st0)"
      "exec ev c f = Doc (json_store (st0\<lparr>Expenses := take k (Expenses st0) @ drop (k + 1) (Expenses st0)\<rparr>))"
    with A [of st0] show ?thesis by (intro del [where k = k]) simp_all
  next
    fix st0 m mk v assume "loadStore ev f = Inr st0" "Budgets st0 = Some m" "0 \<le> v"
      "exec ev c f = Doc (json_store (st0\<lparr>Budgets := Some (m(mk \<mapsto> v))\<rparr>))"
    with A [of st0] show ?thesis by (intro bud [where m = m and mk = mk and v = v]) simp_all
  qed
qed

section \<open>Facts about runs\<close>

lemma utf8_store_NextID: "utf8_store (st\<lparr>NextID := n\<rparr>) = utf8_store st"
  by (simp add: utf8_store_def)

lemma budgets_nonneg_NextID: "budgets_nonneg (st\<lparr>NextID := n\<rparr>) = budgets_nonneg st"
  by (simp add: budgets_nonneg_def)

lemma stored_Doc_budgets:
  "Budgets st \<noteq> None \<Longrightarrow>
   stored (Doc st) = Some (st\<lparr>NextID := (if NextID st = 0 then 1 else NextID st)\<rparr>)"
  by (auto simp: stored_def)

text \<open>
  One command, seen through the store that a load returns before and after it: a budget
  that is not negative stays so, valid UTF-8 stays so, and, unless the next identifier is
  the largest \<^verbatim>\<open>int\<close>, the next identifier does not go down, goes up by at most 1 (from a
  negative one, to at most 1), and stays above the identifiers of the store.
\<close>

lemma stored_exec:
  assumes "stored f = Some st"
  shows "\<exists>st'. stored (exec ev c f) = Some st'
     \<and> (budgets_nonneg st \<longrightarrow> budgets_nonneg st')
     \<and> (utf8_store st \<longrightarrow> utf8_store st')
     \<and> (NextID st \<noteq> maxInt \<longrightarrow>
          NextID st \<le> NextID st' \<and> NextID st' \<le> max 0 (NextID st) + 1
          \<and> (ids_below st \<longrightarrow> ids_below st'))"
  using assms
proof (cases rule: stored_exec_cases [where ev = ev and c = c])
  case same
  with assms show ?thesis by auto
next
  case (add fl d)
  from loadStore_Inr [OF add(1)] have b: "Budgets st \<noteq> None" by simp
  let ?a = "store_after_add ev fl st d"
  let ?n = "if int_incr (NextID st) = 0 then 1 else int_incr (NextID st)"
  let ?st' = "(json_store ?a)\<lparr>NextID := ?n\<rparr>"
  have ba: "Budgets (json_store ?a) \<noteq> None" using b
    by (simp add: json_store_fields) (simp add: store_after_add_def)
  have na: "NextID (json_store ?a) = int_incr (NextID st)"
    by (simp add: json_store_fields) (simp add: store_after_add_def)
  have s: "stored (exec ev c f) = Some ?st'"
    unfolding add(2) stored_Doc_budgets [OF ba] na by simp
  have bn: "budgets_nonneg ?st'" if "budgets_nonneg st"
  proof -
    from that have "budgets_nonneg ?a" by (simp add: budgets_nonneg_def store_after_add_def)
    then show ?thesis unfolding budgets_nonneg_NextID by (rule budgets_nonneg_json)
  qed
  have u: "utf8_store ?st'" unfolding utf8_store_NextID by (rule utf8_store_json)
  have n: "NextID st < NextID ?st' \<and> NextID ?st' \<le> max 0 (NextID st) + 1"
    if "NextID st \<noteq> maxInt"
    using that by (simp add: int_incr_def)
  have ib: "ids_below ?st'" if "NextID st \<noteq> maxInt" "ids_below st"
  proof -
    from n [OF that(1)] have lt: "NextID st < ?n" by simp
    have "set (map ID (Expenses ?st')) = insert (NextID st) (set (map ID (Expenses st)))"
      by (simp add: json_store_fields) (simp add: store_after_add_def added_expense_def)
    then have "i < ?n" if "i \<in> set (map ID (Expenses ?st'))" for i
      using that lt \<open>ids_below st\<close> by (auto simp: ids_below_def)
    then show ?thesis unfolding ids_below_def by simp
  qed
  from s bn u n ib show ?thesis by (intro exI [of _ ?st']) auto
next
  case (upd k e')
  let ?u = "st\<lparr>Expenses := (Expenses st)[k := e']\<rparr>"
  from loadStore_Inr [OF upd(1)] have s: "stored (exec ev c f) = Some (json_store ?u)"
    unfolding upd(4) by (intro stored_Doc_json) simp_all
  have "ids_below ?u" if "ids_below st"
  proof -
    have "ID x < NextID st" if x: "x \<in> set ((Expenses st)[k := e'])" for x
    proof (cases "x = e'")
      case True
      with upd(2,3) \<open>ids_below st\<close> show ?thesis by (simp add: ids_below_def)
    next
      case False
      with x set_update_subset_insert [of "Expenses st" k e'] have "x \<in> set (Expenses st)"
        by auto
      with \<open>ids_below st\<close> show ?thesis by (simp add: ids_below_def)
    qed
    then show ?thesis by (simp add: ids_below_def)
  qed
  then have ib: "ids_below (json_store ?u)" if "ids_below st"
    using that by (simp add: ids_below_json)
  have bn: "budgets_nonneg (json_store ?u)" if "budgets_nonneg st"
    using that by (intro budgets_nonneg_json) (simp add: budgets_nonneg_def)
  have n: "NextID (json_store ?u) = NextID st" by (simp add: json_store_fields)
  from s ib bn n utf8_store_json [of ?u] show ?thesis
    by (intro exI [of _ "json_store ?u"]) auto
next
  case (del k)
  let ?u = "st\<lparr>Expenses := take k (Expenses st) @ drop (k + 1) (Expenses st)\<rparr>"
  from loadStore_Inr [OF del(1)] have s: "stored (exec ev c f) = Some (json_store ?u)"
    unfolding del(2) by (intro stored_Doc_json) simp_all
  have "ids_below ?u" if "ids_below st"
    using that by (auto simp: ids_below_def dest: in_set_takeD in_set_dropD)
  then have ib: "ids_below (json_store ?u)" if "ids_below st"
    using that by (simp add: ids_below_json)
  have bn: "budgets_nonneg (json_store ?u)" if "budgets_nonneg st"
    using that by (intro budgets_nonneg_json) (simp add: budgets_nonneg_def)
  have n: "NextID (json_store ?u) = NextID st" by (simp add: json_store_fields)
  from s ib bn n utf8_store_json [of ?u] show ?thesis
    by (intro exI [of _ "json_store ?u"]) auto
next
  case (bud m mk v)
  let ?u = "st\<lparr>Budgets := Some (m(mk \<mapsto> v))\<rparr>"
  from loadStore_Inr [OF bud(1)] have s: "stored (exec ev c f) = Some (json_store ?u)"
    unfolding bud(4) by (intro stored_Doc_json) simp_all
  have "ids_below ?u" if "ids_below st"
    using that by (simp add: ids_below_def)
  then have ib: "ids_below (json_store ?u)" if "ids_below st"
    using that by (simp add: ids_below_json)
  have bn: "budgets_nonneg (json_store ?u)" if "budgets_nonneg st"
    using that bud(2,3) by (intro budgets_nonneg_json) (auto simp: budgets_nonneg_def map_get_def)
  have n: "NextID (json_store ?u) = NextID st" by (simp add: json_store_fields)
  from s ib bn n utf8_store_json [of ?u] show ?thesis
    by (intro exI [of _ "json_store ?u"]) auto
qed

text \<open>The same for a sequence of commands that is short enough for the next identifier to
  stay below the largest \<^verbatim>\<open>int\<close>.\<close>

lemma stored_run:
  assumes "stored f = Some st"
  shows "\<exists>st'. stored (run f steps) = Some st'
     \<and> (budgets_nonneg st \<longrightarrow> budgets_nonneg st')
     \<and> (utf8_store st \<longrightarrow> utf8_store st')
     \<and> (max 0 (NextID st) + int (length steps) \<le> maxInt \<longrightarrow>
          NextID st \<le> NextID st' \<and> NextID st' \<le> max 0 (NextID st) + int (length steps)
          \<and> (ids_below st \<longrightarrow> ids_below st'))"
  using assms
proof (induction steps arbitrary: f st)
  case Nil
  then show ?case by simp
next
  case (Cons step steps)
  obtain ev c where step: "step = (ev, c)" by (cases step)
  from stored_exec [OF Cons.prems, of ev c] obtain st1 where
    st1: "stored (exec ev c f) = Some st1" "budgets_nonneg st \<longrightarrow> budgets_nonneg st1"
      "utf8_store st \<longrightarrow> utf8_store st1"
      "NextID st \<noteq> maxInt \<longrightarrow>
          NextID st \<le> NextID st1 \<and> NextID st1 \<le> max 0 (NextID st) + 1
          \<and> (ids_below st \<longrightarrow> ids_below st1)"
    by blast
  from Cons.IH [OF st1(1)] obtain st2 where
    st2: "stored (run (exec ev c f) steps) = Some st2" "budgets_nonneg st1 \<longrightarrow> budgets_nonneg st2"
      "utf8_store st1 \<longrightarrow> utf8_store st2"
      "max 0 (NextID st1) + int (length steps) \<le> maxInt \<longrightarrow>
          NextID st1 \<le> NextID st2 \<and> NextID st2 \<le> max 0 (NextID st1) + int (length steps)
          \<and> (ids_below st1 \<longrightarrow> ids_below st2)"
    by blast
  have ids: "NextID st \<le> NextID st2
      \<and> NextID st2 \<le> max 0 (NextID st) + int (length (step # steps))
      \<and> (ids_below st \<longrightarrow> ids_below st2)"
    if b: "max 0 (NextID st) + int (length (step # steps)) \<le> maxInt"
  proof -
    from b have "NextID st \<noteq> maxInt" by auto
    with st1(4) have 1: "NextID st \<le> NextID st1" "NextID st1 \<le> max 0 (NextID st) + 1"
      "ids_below st \<longrightarrow> ids_below st1" by simp_all
    from 1(2) b have "max 0 (NextID st1) + int (length steps) \<le> maxInt" by auto
    with st2(4) have 2: "NextID st1 \<le> NextID st2"
      "NextID st2 \<le> max 0 (NextID st1) + int (length steps)"
      "ids_below st1 \<longrightarrow> ids_below st2" by simp_all
    from 1 2 show ?thesis by auto
  qed
  from st1(2,3) st2(1,2,3) ids show ?case
    by (intro exI [of _ st2]) (simp add: step)
qed

lemma stored_NotExist:
  "stored NotExist = Some \<lparr>NextID = 1, Expenses = [], Budgets = Some Map.empty\<rparr>"
  by (simp add: stored_def)

text \<open>Every store that a load returns after a run from the absent file.\<close>

lemma reached_store:
  assumes "loadStore ev (run NotExist steps) = Inr st"
  shows "budgets_nonneg st \<and> utf8_store st
     \<and> (int (length steps) < maxInt \<longrightarrow>
          1 \<le> NextID st \<and> NextID st \<le> 1 + int (length steps) \<and> ids_below st)"
proof -
  let ?e = "\<lparr>NextID = 1, Expenses = [], Budgets = Some Map.empty\<rparr>"
  have "budgets_nonneg ?e" "utf8_store ?e" "ids_below ?e" "NextID ?e = 1"
    by (simp_all add: budgets_nonneg_def utf8_store_def ids_below_def map_get_def)
  with stored_run [OF stored_NotExist, of steps] loadStore_stored [OF assms]
  show ?thesis by auto
qed

section \<open>The samples evaluated\<close>

lemma host0_flags: "home_ok host0" "readable host0" "writable host0"
  by (simp_all add: host0_def)

lemma host1_flags: "home_ok host1" "readable host1" "writable host1" "now_updated host1 = 201"
  by (simp_all add: host1_def host0_def)

lemma host0_fresh: "loadStore host0 NotExist = Inr fresh_store"
  by (simp add: loadStore_def host0_def fresh_store_def)

lemma TrimSpace_samples:
  "TrimSpace ''Lunch'' = ''Lunch''" "TrimSpace ''General'' = ''General''"
  "TrimSpace [] = []" "TrimSpace ''2025-08-09'' = ''2025-08-09''"
  "TrimSpace ''2025-08-10'' = ''2025-08-10''" "TrimSpace ''Dinner'' = ''Dinner''"
  "TrimSpace [CHR 0xFF] = [CHR 0xFF]"
  "TrimSpace (CHR 0xC2 # CHR 0xA0 # ''Supper '') = ''Supper''"
  "TrimSpace [CHR '' '', CHR '' '', CHR ''F'', CHR ''o'', CHR ''o'', CHR ''d'', CHR 0x09] = ''Food''"
  "TrimSpace [CHR 0xC2, CHR 0xA0, CHR 0xE3, CHR 0x80, CHR 0x80] = []"
  by code_simp+

lemma time_Parse_samples:
  "time_Parse ''2025-08-09'' = Some (2025, 8, 9)" "time_Parse ''2025-08-10'' = Some (2025, 8, 10)"
  "time_Parse ''2025-08-05'' = Some (2025, 8, 5)" "time_Parse ''2025-07-20'' = Some (2025, 7, 20)"
  "time_Parse ''2024-08-09'' = Some (2024, 8, 9)" "time_Parse ''someday'' = None"
  by code_simp+

lemma monthKey_samples:
  "monthKeyFromDate ''2025-08-09'' = Some ''2025-08''"
  "monthKeyFromDate ''2025-08-10'' = Some ''2025-08''"
  "monthKeyFromDate ''2025-07-20'' = Some ''2025-07''"
  "monthKeyFromDate ''someday'' = None"
  by code_simp+

lemma utf8_valid_samples:
  "utf8_valid ''Lunch''" "utf8_valid ''Dinner''" "utf8_valid ''General''"
  "utf8_valid ''2025-08-09''" "utf8_valid ''2025-08-10''" "utf8_valid ''2025-08''"
  "utf8_valid [CHR 0xEF, CHR 0xBF, CHR 0xBD]" "\<not> utf8_valid [CHR 0xFF]"
  "utf8_valid ''Food''" "utf8_valid []"
  "utf8_valid ''2025-07-20''" "utf8_valid ''someday''" "utf8_valid ''Picnic''" "utf8_valid ''Cake''"
  "utf8_valid ''food''"
  by code_simp+

lemma json_string_samples:
  "json_string [CHR 0xFF] = [CHR 0xEF, CHR 0xBF, CHR 0xBD]"
  by code_simp

lemma budget_key_samples:
  "budget_key host0 set_budget_zero = ''2025-08''" "budget_key host0 set_budget_50 = ''2025-08''"
  "budget_month host0 set_budget_zero = 8" "budget_month host0 set_budget_50 = 8"
  by code_simp+

lemma utf8_store_samples:
  "utf8_store fresh_store" "utf8_store lunch_store" "utf8_store two_store"
  "utf8_store budget_store" "utf8_store budget_lunch_store" "utf8_store budget_two_store"
  "utf8_store replaced_store" "utf8_store max_store"
  by (simp_all add: utf8_store_def fresh_store_def lunch_store_def two_store_def budget_store_def
      budget_lunch_store_def budget_two_store_def replaced_store_def max_store_def lunch_def
      dinner_def utf8_valid_samples)

lemma loads_samples:
  "loadStore host0 (Doc lunch_store) = Inr lunch_store"
  "loadStore host0 (Doc two_store) = Inr two_store"
  "loadStore host1 (Doc two_store) = Inr two_store"
  "loadStore host0 (Doc swapped_store) = Inr swapped_store"
  "loadStore full_disk (Doc swapped_store) = Inr swapped_store"
  "loadStore host0 (Doc mixed_store) = Inr mixed_store"
  "loadStore host0 (Doc budget_store) = Inr budget_store"
  "loadStore host0 (Doc budget_lunch_store) = Inr budget_lunch_store"
  "loadStore host0 (Doc budget_mixed_store) = Inr budget_mixed_store"
  "loadStore host0 (Doc max_store) = Inr max_store"
  "loadStore host0 (Doc replaced_store) = Inr replaced_store"
  by (simp_all add: loadStore_def host0_def host1_def full_disk_def lunch_store_def two_store_def
      swapped_store_def mixed_store_def budget_store_def budget_lunch_store_def
      budget_mixed_store_def max_store_def replaced_store_def)

section \<open>Loading\<close>

text \<open>
  C7. Loading an absent file gives the fresh store: next identifier 1, no expenses, an empty
  budgets map that is not nil, and no error. Loading a file that does not decode fails, with
  an error of the class CorruptStoreError. Every store that load returns has a budgets map
  that is not nil and a next identifier that is not 0: a nil map has become the empty map, a
  zero identifier has become 1, and nothing else of the decoded store is changed.
\<close>

theorem load_contract:
  "(home_ok ev \<longrightarrow>
      loadStore ev NotExist = Inr \<lparr>NextID = 1, Expenses = [], Budgets = Some Map.empty\<rparr>)
   \<and> (home_ok ev \<and> readable ev \<longrightarrow>
        (\<exists>e. loadStore ev Undecodable = Inl e \<and> spec_error_class e = CorruptStoreError))
   \<and> (home_ok ev \<and> readable ev \<longrightarrow>
        loadStore ev (Doc st0) =
          Inr (st0\<lparr>NextID := (if NextID st0 = 0 then 1 else NextID st0),
                   Budgets := (case Budgets st0 of None \<Rightarrow> Some Map.empty | Some m \<Rightarrow> Some m)\<rparr>))
   \<and> (\<forall>st. loadStore ev f = Inr st \<longrightarrow> Budgets st \<noteq> None \<and> NextID st \<noteq> 0)"
  by (cases f) (auto simp: loadStore_def Let_def split: option.splits if_splits)

theorem load_contract_witness:
  "loadStore host0 NotExist = Inr \<lparr>NextID = 1, Expenses = [], Budgets = Some Map.empty\<rparr>
   \<and> (\<exists>e. loadStore host0 Undecodable = Inl e \<and> spec_error_class e = CorruptStoreError)
   \<and> loadStore host0 (Doc old_store) =
         Inr \<lparr>NextID = 1, Expenses = [], Budgets = Some Map.empty\<rparr>"
  using load_contract [where ev = host0 and ?st0.0 = old_store and f = "Doc old_store"]
  by (simp add: host0_def old_store_def)

section \<open>Updates\<close>

lemma two_store_finds_dinner: "dinner \<in> set (Expenses two_store)" "ID dinner = 2"
  "findByID two_store 2 = Some 1" "Expenses two_store ! 1 = dinner"
  by (simp_all add: two_store_def dinner_def lunch_def findByID_def)

text \<open>
  C1, as stated, fails: the description is written to the expense in memory before the
  amount is looked at. With \<^verbatim>\<open>update --id 2 --amount 0\<close> and a description of a no-break
  space, \<^verbatim>\<open>Supper\<close> and a space, the block ends with the amount's error and the expense in
  memory has the new description, trimmed.
\<close>

theorem update_description_written_before_amount_check:
  "update_fields host0 bad_amount_update dinner =
     (dinner\<lparr>Description := ''Supper''\<rparr>, Some ErrAmountNotPositive)
   \<and> dinner\<lparr>Description := ''Supper''\<rparr> \<noteq> dinner"
  by (simp add: update_fields_def bad_amount_update_def flagval_def TrimSpace_samples Let_def)
     (simp add: dinner_def)

text \<open>
  C1, amended. For every store that holds an expense with the given identifier, an update
  whose amount flag was set to a value that is not above 0 fails with an error of the class
  ValidationError and saves nothing: the data file after the call is the data file before
  it, so the stored amount and every other stored field are unchanged. The target is the
  first expense of the store with the identifier. In memory, when the call fails the target
  has its amount, date, category, identifier and both timestamps as loaded; its
  description is as loaded or, when a description that is not blank was supplied, the
  supplied one without its leading and trailing white space.
\<close>

theorem update_nonpositive_amount_rejected:
  assumes "loadStore ev f = Inr st" and "e \<in> set (Expenses st)" and "ID e = i"
    and "u_id fl = Some i" and "u_amount fl = Some v" and "v \<le> 0"
  shows "\<exists>err k e' d. cmdUpdate ev fl f = (f, Inl err)
           \<and> spec_error_class err = ValidationError
           \<and> k < length (Expenses st) \<and> ID (Expenses st ! k) = i
           \<and> (\<forall>j < k. ID (Expenses st ! j) \<noteq> i)
           \<and> update_fields ev fl (Expenses st ! k) = (e', Some ErrAmountNotPositive)
           \<and> Amount e' = Amount (Expenses st ! k) \<and> Date e' = Date (Expenses st ! k)
           \<and> Category e' = Category (Expenses st ! k) \<and> ID e' = ID (Expenses st ! k)
           \<and> CreatedAt e' = CreatedAt (Expenses st ! k)
           \<and> UpdatedAt e' = UpdatedAt (Expenses st ! k)
           \<and> spec_trimmed_of (flagval [] (u_description fl)) d
           \<and> Description e' = (if d = [] then Description (Expenses st ! k) else d)"
proof -
  from findByID_complete [OF assms(2,3)] obtain k where k: "findByID st i = Some k" by blast
  let ?e = "Expenses st ! k"
  let ?d = "TrimSpace (flagval [] (u_description fl))"
  let ?e' = "if ?d \<noteq> [] then ?e\<lparr>Description := ?d\<rparr> else ?e"
  have fields: "update_fields ev fl ?e = (?e', Some ErrAmountNotPositive)"
    using assms(5,6) by (simp add: update_fields_def Let_def)
  have call: "\<exists>err. cmdUpdate ev fl f = (f, Inl err) \<and> spec_error_class err = ValidationError"
  proof (cases "i \<le> 0")
    case True
    with assms(4) have "cmdUpdate ev fl f = (f, Inl ErrIdRequired)"
      by (simp add: cmdUpdate_def flagval_def)
    then show ?thesis by simp
  next
    case False
    with assms(1,4) k fields have "cmdUpdate ev fl f = (f, Inl ErrAmountNotPositive)"
      by (simp add: cmdUpdate_def flagval_def)
    then show ?thesis by simp
  qed
  from call obtain err where
    c: "cmdUpdate ev fl f = (f, Inl err)" "spec_error_class err = ValidationError" by blast
  have first: "\<forall>j < k. ID (Expenses st ! j) \<noteq> i"
    using findByID_first [OF k] by blast
  have tr: "spec_trimmed_of (flagval [] (u_description fl)) ?d" by (rule TrimSpace_trimmed)
  from c fields findByID_Some [OF k] first tr show ?thesis
    by (intro exI [of _ err] exI [of _ k] exI [of _ ?e'] exI [of _ ?d]) simp
qed

theorem update_nonpositive_amount_rejected_witness:
  "\<exists>err. cmdUpdate host0 bad_amount_update (Doc two_store) = (Doc two_store, Inl err)
     \<and> spec_error_class err = ValidationError"
proof -
  have a: "u_id bad_amount_update = Some 2" and b: "u_amount bad_amount_update = Some 0"
    by (simp_all add: bad_amount_update_def)
  have c: "(0::real) \<le> 0" by simp
  from update_nonpositive_amount_rejected
    [OF loads_samples(2) two_store_finds_dinner(1,2) a b c]
  show ?thesis by blast
qed

lemma update_fields_bare:
  "update_fields ev (bare_update i) e = (e\<lparr>UpdatedAt := now_updated ev\<rparr>, None)"
  by (simp add: update_fields_def bare_update_def flagval_def TrimSpace_samples)

lemma utf8_store_touch:
  assumes "utf8_store st" and "k < length (Expenses st)"
  shows "utf8_store (st\<lparr>Expenses := (Expenses st)[k := (Expenses st ! k)\<lparr>UpdatedAt := t\<rparr>]\<rparr>)"
proof -
  let ?x = "(Expenses st ! k)\<lparr>UpdatedAt := t\<rparr>"
  from assms have x: "utf8_valid (Date ?x) \<and> utf8_valid (Description ?x) \<and> utf8_valid (Category ?x)"
    by (simp add: utf8_store_def)
  have "utf8_valid (Date y) \<and> utf8_valid (Description y) \<and> utf8_valid (Category y)"
    if "y \<in> set ((Expenses st)[k := ?x])" for y
  proof (cases "y = ?x")
    case True
    with x show ?thesis by simp
  next
    case False
    with that set_update_subset_insert [of "Expenses st" k ?x] have "y \<in> set (Expenses st)"
      by auto
    with assms(1) show ?thesis by (simp add: utf8_store_def)
  qed
  with assms(1) show ?thesis by (simp add: utf8_store_def)
qed

text \<open>
  C9. For every store that holds the target identifier, an update that names the identifier
  (the program reads an identifier that is not above 0 as one that was not given) and sets
  none of the description, amount, date and category flags succeeds when the save does, and
  the store it saves is the store it loaded with one change: the target expense, the first
  with the identifier, has the clock's reading as its update time. The target's
  description, amount, date, category and creation time, every other expense, the next
  identifier and the budgets are as loaded. The document written is that store as the
  encoder writes it, which is that store itself when the strings of the store loaded are
  valid UTF-8 (as those of every store decoded from a document are), and loading the saved
  file then returns that store. When the save fails the file is as it was.
\<close>

theorem update_without_fields_changes_only_updatedAt:
  assumes "loadStore ev f = Inr st" and "e \<in> set (Expenses st)" and "ID e = i" and "0 < i"
  shows "\<exists>k. k < length (Expenses st) \<and> ID (Expenses st ! k) = i
     \<and> (\<forall>j < k. ID (Expenses st ! j) \<noteq> i)
     \<and> (writable ev \<longrightarrow>
          (\<exists>w. cmdUpdate ev (bare_update i) f =
                 (Doc (json_store
                    (st\<lparr>Expenses :=
                          (Expenses st)[k := (Expenses st ! k)\<lparr>UpdatedAt := now_updated ev\<rparr>]\<rparr>)),
                  Inr w))
          \<and> (utf8_store st \<longrightarrow>
               (\<exists>w. cmdUpdate ev (bare_update i) f =
                 (Doc (st\<lparr>Expenses :=
                            (Expenses st)[k := (Expenses st ! k)\<lparr>UpdatedAt := now_updated ev\<rparr>]\<rparr>),
                  Inr w)))
          \<and> (utf8_store st \<and> readable ev \<longrightarrow>
               loadStore ev (fst (cmdUpdate ev (bare_update i) f)) =
                 Inr (st\<lparr>Expenses :=
                           (Expenses st)[k := (Expenses st ! k)\<lparr>UpdatedAt := now_updated ev\<rparr>]\<rparr>)))
     \<and> (\<not> writable ev \<longrightarrow> fst (cmdUpdate ev (bare_update i) f) = f)"
proof -
  from findByID_complete [OF assms(2,3)] obtain k where k: "findByID st i = Some k" by blast
  from findByID_Some [OF k] have kl: "k < length (Expenses st)" and ki: "ID (Expenses st ! k) = i"
    by simp_all
  have first: "\<forall>j < k. ID (Expenses st ! j) \<noteq> i" using findByID_first [OF k] by blast
  let ?st1 = "st\<lparr>Expenses := (Expenses st)[k := (Expenses st ! k)\<lparr>UpdatedAt := now_updated ev\<rparr>]\<rparr>"
  from loadStore_Inr [OF assms(1)] have home: "home_ok ev"
    and norm: "NextID st \<noteq> 0" "Budgets st \<noteq> None" by simp_all
  have id: "u_id (bare_update i) = Some i" by (simp add: bare_update_def)
  have call: "cmdUpdate ev (bare_update i) f =
      (case save ev ?st1 f of
         (f', Some err) \<Rightarrow> (f', Inl err)
       | (f', None) \<Rightarrow> (f', Inr (warnIfBudgetExceeded ev ?st1 (Date (Expenses st ! k)) [])))"
    using assms(1,4) k by (simp add: cmdUpdate_def id flagval_def update_fields_bare Let_def)
  have ok: "cmdUpdate ev (bare_update i) f =
      (Doc (json_store ?st1), Inr (warnIfBudgetExceeded ev ?st1 (Date (Expenses st ! k)) []))"
    if "writable ev"
    using home that by (simp add: call save_def)
  have same: "json_store ?st1 = ?st1" if "utf8_store st"
    by (rule json_store_valid) (rule utf8_store_touch [OF that kl])
  have reload: "loadStore ev (fst (cmdUpdate ev (bare_update i) f)) = Inr ?st1"
    if "writable ev" "utf8_store st" "readable ev"
    using ok [OF that(1)] same [OF that(2)] home norm that(3) by (simp add: loadStore_Doc)
  have fail: "fst (cmdUpdate ev (bare_update i) f) = f" if "\<not> writable ev"
    using that by (simp add: call save_def)
  from kl ki first ok same reload fail show ?thesis
    by (intro exI [of _ k]) auto
qed

theorem update_without_fields_changes_only_updatedAt_witness:
  "cmdUpdate host1 (bare_update 2) (Doc two_store) =
     (Doc (two_store\<lparr>Expenses := [lunch, dinner\<lparr>UpdatedAt := 201\<rparr>]\<rparr>), Inr None)
   \<and> UpdatedAt dinner \<noteq> 201"
proof -
  have pos: "(0::int) < 2" by simp
  from update_without_fields_changes_only_updatedAt
    [OF loads_samples(3) two_store_finds_dinner(1,2) pos]
  obtain k where k: "k < length (Expenses two_store)" "ID (Expenses two_store ! k) = 2"
    and w: "writable host1 \<longrightarrow> (utf8_store two_store \<longrightarrow>
       (\<exists>w. cmdUpdate host1 (bare_update 2) (Doc two_store) =
          (Doc (two_store\<lparr>Expenses :=
              (Expenses two_store)[k := (Expenses two_store ! k)\<lparr>UpdatedAt := now_updated host1\<rparr>]\<rparr>),
           Inr w)))"
    by blast
  from k have k1: "k = 1" by (cases k) (simp_all add: two_store_def lunch_def dinner_def)
  from w host1_flags(3) utf8_store_samples(3) obtain x where
    "cmdUpdate host1 (bare_update 2) (Doc two_store) =
      (Doc (two_store\<lparr>Expenses :=
          (Expenses two_store)[k := (Expenses two_store ! k)\<lparr>UpdatedAt := now_updated host1\<rparr>]\<rparr>),
       Inr x)"
    by blast
  then have x: "cmdUpdate host1 (bare_update 2) (Doc two_store) =
      (Doc (two_store\<lparr>Expenses := [lunch, dinner\<lparr>UpdatedAt := 201\<rparr>]\<rparr>), Inr x)"
    by (simp add: k1 host1_flags two_store_def)
  have "x = None"
  proof -
    have "cmdUpdate host1 (bare_update 2) (Doc two_store) =
        (Doc (json_store (two_store\<lparr>Expenses := [lunch, dinner\<lparr>UpdatedAt := 201\<rparr>]\<rparr>)),
         Inr (warnIfBudgetExceeded host1 (two_store\<lparr>Expenses := [lunch, dinner\<lparr>UpdatedAt := 201\<rparr>]\<rparr>)
                ''2025-08-10'' []))"
      by (simp add: cmdUpdate_def bare_update_def flagval_def loads_samples two_store_finds_dinner
          update_fields_bare [unfolded bare_update_def] save_def host1_flags Let_def)
         (simp add: two_store_def dinner_def)
    with x have "x = warnIfBudgetExceeded host1
        (two_store\<lparr>Expenses := [lunch, dinner\<lparr>UpdatedAt := 201\<rparr>]\<rparr>) ''2025-08-10'' []"
      by simp
    then show ?thesis
      by (simp add: warnIfBudgetExceeded_def monthKey_samples map_get_def two_store_def)
  qed
  with x show ?thesis by (simp add: dinner_def)
qed

section \<open>Budgets\<close>

lemma json_store_budget_zero:
  "json_store \<lparr>NextID = 1, Expenses = [], Budgets = Some [''2025-08'' \<mapsto> 0]\<rparr> =
     \<lparr>NextID = 1, Expenses = [], Budgets = Some [''2025-08'' \<mapsto> 0]\<rparr>"
  by (rule json_store_valid) (simp add: utf8_store_def utf8_valid_samples)

text \<open>
  C2, as stated, fails: \<^verbatim>\<open>budget --set 0 --month 8 --year 2025\<close> on an absent file saves a
  store whose budget for \<^verbatim>\<open>2025-08\<close> is 0, which is not above 0.
\<close>

theorem budget_of_zero_is_stored:
  "run NotExist [(host0, Budget set_budget_zero)] =
     Doc \<lparr>NextID = 1, Expenses = [], Budgets = Some [''2025-08'' \<mapsto> 0]\<rparr>
   \<and> map_get (Budgets \<lparr>NextID = 1, Expenses = [], Budgets = Some [''2025-08'' \<mapsto> 0]\<rparr>) ''2025-08''
       = Some 0"
proof -
  have s: "flagval (- 1) (b_set set_budget_zero) = 0" by (simp add: set_budget_zero_def flagval_def)
  have b: "Budgets fresh_store = Some Map.empty" by (simp add: fresh_store_def)
  have "cmdBudget host0 set_budget_zero NotExist =
      (Doc \<lparr>NextID = 1, Expenses = [], Budgets = Some [''2025-08'' \<mapsto> 0]\<rparr>,
       Inr (BudgetSet ''2025-08'' 0))"
    using cmdBudget_set [OF host0_fresh b, of set_budget_zero]
    by (simp add: s budget_key_samples host0_flags fresh_store_def json_store_budget_zero)
  then show ?thesis by (simp add: map_get_def)
qed

text \<open>
  C2, amended. The budgets map only ever holds limits that are not negative. Setting a
  budget with an amount that is 0 or more (and a month from 1 to 12) stores that amount
  under the month key, in place of any entry the key had, and saves: the document written
  is the store loaded with that entry, as the encoder writes it, which is that store itself
  when the strings of the store loaded are valid UTF-8 (as those of every store decoded
  from a document are). An amount below 0 is never stored (the command then only reads).
  In every store that the program's commands reach from the absent file, every budget is 0
  or more; a budget of 0 can be stored.
\<close>

theorem budget_set_stores_nonnegative:
  "(\<forall>st v. loadStore ev f = Inr st \<and> b_set fl = Some v \<and> 0 \<le> v
        \<and> 1 \<le> budget_month ev fl \<and> budget_month ev fl \<le> 12 \<and> writable ev \<longrightarrow>
      (\<exists>m. Budgets st = Some m
         \<and> cmdBudget ev fl f =
             (Doc (json_store (st\<lparr>Budgets := Some (m(budget_key ev fl \<mapsto> v))\<rparr>)),
              Inr (BudgetSet (budget_key ev fl) v))
         \<and> (utf8_store st \<longrightarrow>
              cmdBudget ev fl f =
                (Doc (st\<lparr>Budgets := Some (m(budget_key ev fl \<mapsto> v))\<rparr>),
                 Inr (BudgetSet (budget_key ev fl) v)))))
   \<and> (\<forall>v. b_set fl = Some v \<and> v < 0 \<longrightarrow> fst (cmdBudget ev fl f) = f)
   \<and> (\<forall>ev' st k v. loadStore ev' (run NotExist steps) = Inr st
          \<and> map_get (Budgets st) k = Some v \<longrightarrow> 0 \<le> v)"
proof (intro conjI allI impI)
  fix st v
  assume a: "loadStore ev f = Inr st \<and> b_set fl = Some v \<and> 0 \<le> v
      \<and> 1 \<le> budget_month ev fl \<and> budget_month ev fl \<le> 12 \<and> writable ev"
  from a have l: "loadStore ev f = Inr st" and bs: "b_set fl = Some v" and nn: "0 \<le> v"
    and m1: "1 \<le> budget_month ev fl" and m2: "budget_month ev fl \<le> 12" and w: "writable ev"
    by simp_all
  from loadStore_Inr [OF l] obtain m where m: "Budgets st = Some m" by auto
  let ?st1 = "st\<lparr>Budgets := Some (m(budget_key ev fl \<mapsto> v))\<rparr>"
  from bs have v: "flagval (- 1) (b_set fl) = v" by (simp add: flagval_def)
  from nn have "0 \<le> flagval (- 1) (b_set fl)" by (simp only: v)
  from cmdBudget_set [OF l m this m1 m2]
  have c: "cmdBudget ev fl f = (Doc (json_store ?st1), Inr (BudgetSet (budget_key ev fl) v))"
    by (simp only: v w if_True)
  have u: "cmdBudget ev fl f = (Doc ?st1, Inr (BudgetSet (budget_key ev fl) v))"
    if "utf8_store st"
  proof -
    from that m have "utf8_store ?st1"
      by (simp add: utf8_store_set_budget [OF that budget_key_valid]) (simp add: utf8_store_def)
    then have "json_store ?st1 = ?st1" by (rule json_store_valid)
    with c show ?thesis by simp
  qed
  from m c u show "\<exists>m. Budgets st = Some m
         \<and> cmdBudget ev fl f =
             (Doc (json_store (st\<lparr>Budgets := Some (m(budget_key ev fl \<mapsto> v))\<rparr>)),
              Inr (BudgetSet (budget_key ev fl) v))
         \<and> (utf8_store st \<longrightarrow>
              cmdBudget ev fl f =
                (Doc (st\<lparr>Budgets := Some (m(budget_key ev fl \<mapsto> v))\<rparr>),
                 Inr (BudgetSet (budget_key ev fl) v)))"
    by (intro exI [of _ m]) simp
next
  fix v
  assume "b_set fl = Some v \<and> v < 0"
  then have neg: "\<not> 0 \<le> flagval (- 1) (b_set fl)" by (simp add: flagval_def)
  show "fst (cmdBudget ev fl f) = f"
  proof (cases "loadStore ev f")
    case (Inl err)
    then show ?thesis by (simp add: cmdBudget_def Let_def)
  next
    case (Inr st)
    with neg show ?thesis by (simp add: cmdBudget_def Let_def split: option.splits)
  qed
next
  fix ev' st k v
  assume "loadStore ev' (run NotExist steps) = Inr st \<and> map_get (Budgets st) k = Some v"
  with reached_store [of ev' steps st] show "0 \<le> v" by (auto simp: budgets_nonneg_def)
qed

theorem budget_set_stores_nonnegative_witness:
  "cmdBudget host0 set_budget_50 NotExist =
     (Doc budget_store, Inr (BudgetSet ''2025-08'' 50))
   \<and> loadStore host0 (run NotExist [(host0, Budget set_budget_50)]) = Inr budget_store
   \<and> map_get (Budgets budget_store) ''2025-08'' = Some 50 \<and> (0::real) \<le> 50"
proof -
  have s: "b_set set_budget_50 = Some 50" by (simp add: set_budget_50_def)
  note inst = budget_set_stores_nonnegative
    [of host0 NotExist set_budget_50 "[(host0, Budget set_budget_50)]"]
  have b: "Budgets fresh_store = Some Map.empty" by (simp add: fresh_store_def)
  have h: "loadStore host0 NotExist = Inr fresh_store \<and> b_set set_budget_50 = Some 50
      \<and> (0::real) \<le> 50 \<and> 1 \<le> budget_month host0 set_budget_50
      \<and> budget_month host0 set_budget_50 \<le> 12 \<and> writable host0"
    by (simp add: host0_fresh s budget_key_samples host0_flags)
  from inst h obtain m where m: "Budgets fresh_store = Some m"
    and u: "utf8_store fresh_store \<longrightarrow>
      cmdBudget host0 set_budget_50 NotExist =
        (Doc (fresh_store\<lparr>Budgets := Some (m(budget_key host0 set_budget_50 \<mapsto> 50))\<rparr>),
         Inr (BudgetSet (budget_key host0 set_budget_50) 50))"
    by blast
  from m b have "m = Map.empty" by simp
  with u have "cmdBudget host0 set_budget_50 NotExist =
      (Doc (fresh_store\<lparr>Budgets := Some [''2025-08'' \<mapsto> 50]\<rparr>), Inr (BudgetSet ''2025-08'' 50))"
    by (simp add: budget_key_samples utf8_store_samples)
  then have c: "cmdBudget host0 set_budget_50 NotExist =
      (Doc budget_store, Inr (BudgetSet ''2025-08'' 50))"
    by (simp add: fresh_store_def budget_store_def)
  then have r: "run NotExist [(host0, Budget set_budget_50)] = Doc budget_store" by simp
  have l: "loadStore host0 (Doc budget_store) = Inr budget_store" by (rule loads_samples)
  have g: "map_get (Budgets budget_store) ''2025-08'' = Some 50"
    by (simp add: map_get_def budget_store_def)
  from inst l g r have "(0::real) \<le> 50" by auto
  with c r l g show ?thesis by simp
qed

end
